theory Spec2Isabelle
  imports Main
begin

section \<open>Python values used by \<open>src/layouts.py\<close>\<close>

text \<open>
  A Python \<open>str\<close> is a sequence of Unicode code points; indices, \<open>find\<close> and
  slices count code points. It is modelled as a list of code point numbers, so that the
  em dash of the Saga pattern (U+2014) is one element. \<open>u\<close> reads an ASCII literal.
\<close>

type_synonym ustr = "nat list"

definition u :: "string \<Rightarrow> ustr" where
  "u s = map of_char s"

definition NL :: nat where "NL = 10"
definition SP :: nat where "SP = 32"
definition EM_DASH :: nat where "EM_DASH = 8212"

text \<open>
  The exceptions that the modelled code can raise, and \<open>MergeAmbiguity\<close>, the condition
  that the specification names for the merge phase.
\<close>

datatype error = TypeError | IndexError | ValueError | KeyError | MergeAmbiguity

subsection \<open>\<open>str\<close> methods\<close>

text \<open>\<open>s.find(sub)\<close>: the least index where \<open>sub\<close> occurs, \<open>-1\<close> when it does not.\<close>

fun find_sub :: "'a list \<Rightarrow> 'a list \<Rightarrow> nat option" where
  "find_sub sub [] = (if sub = [] then Some 0 else None)"
| "find_sub sub (c # cs) =
     (if take (length sub) (c # cs) = sub then Some 0
      else map_option Suc (find_sub sub cs))"


text \<open>\<open>sub in s\<close>.\<close>

definition py_contains :: "ustr \<Rightarrow> ustr \<Rightarrow> bool" where
  "py_contains sub s = (find_sub sub s \<noteq> None)"

text \<open>
  \<open>s.split(sep)\<close> for a non-empty separator (every call site passes a literal):
  the pieces between the non-overlapping occurrences of \<open>sep\<close>, read left to right.
\<close>

fun py_split :: "'a list \<Rightarrow> 'a list \<Rightarrow> 'a list list" where
  "py_split sep [] = [[]]"
| "py_split sep (c # cs) =
     (if sep \<noteq> [] \<and> take (length sep) (c # cs) = sep
      then [] # py_split sep (drop (length sep - 1) cs)
      else (case py_split sep cs of [] \<Rightarrow> [[c]] | w # ws \<Rightarrow> (c # w) # ws))"

text \<open>\<open>s.split(sep, 1)\<close>: at most one cut, at the first occurrence.\<close>

definition py_split1 :: "'a list \<Rightarrow> 'a list \<Rightarrow> 'a list list" where
  "py_split1 sep s =
     (case find_sub sep s of
        None \<Rightarrow> [s]
      | Some i \<Rightarrow> [take i s, drop (i + length sep) s])"

text \<open>\<open>sep.join(xs)\<close>.\<close>

fun py_join :: "'a list \<Rightarrow> 'a list list \<Rightarrow> 'a list" where
  "py_join sep [] = []"
| "py_join sep [x] = x"
| "py_join sep (x # y # ys) = x @ sep @ py_join sep (y # ys)"

text \<open>\<open>s.count(c)\<close> for a one-character \<open>c\<close>.\<close>

definition py_count :: "nat \<Rightarrow> ustr \<Rightarrow> nat" where
  "py_count c s = length (filter (\<lambda>x. x = c) s)"

text \<open>
  \<open>str.isspace\<close> per character: the code points with bidirectional type WS, B or S
  or category Zs, which is what \<open>strip\<close>, \<open>lstrip\<close> and \<open>rstrip\<close> remove.
\<close>

definition py_isspace :: "nat \<Rightarrow> bool" where
  "py_isspace c =
     ((9 \<le> c \<and> c \<le> 13) \<or> (28 \<le> c \<and> c \<le> 32) \<or> c = 133 \<or> c = 160 \<or> c = 5760
      \<or> (8192 \<le> c \<and> c \<le> 8202) \<or> c = 8232 \<or> c = 8233 \<or> c = 8239 \<or> c = 8287
      \<or> c = 12288)"

definition lstrip :: "ustr \<Rightarrow> ustr" where
  "lstrip s = dropWhile py_isspace s"

definition rstrip :: "ustr \<Rightarrow> ustr" where
  "rstrip s = rev (dropWhile py_isspace (rev s))"

definition strip :: "ustr \<Rightarrow> ustr" where
  "strip s = rstrip (lstrip s)"

text \<open>
  \<open>s.splitlines()\<close>: cuts at every line boundary (\<open>\n\<close>, \<open>\r\<close>, \<open>\r\n\<close>, \<open>\v\<close>,
  \<open>\f\<close>, \<open>\x1c\<close>, \<open>\x1d\<close>, \<open>\x1e\<close>, \<open>\x85\<close>, U+2028, U+2029) and gives no empty
  last line.
\<close>

definition is_linebreak :: "nat \<Rightarrow> bool" where
  "is_linebreak c = (c \<in> set [10, 11, 12, 13, 28, 29, 30, 133, 8232, 8233])"

fun splitlines_acc :: "ustr \<Rightarrow> ustr \<Rightarrow> ustr list" where
  "splitlines_acc cur [] = (if cur = [] then [] else [cur])"
| "splitlines_acc cur (c # cs) =
     (if c = 13 \<and> take 1 cs = [10] then cur # splitlines_acc [] (drop 1 cs)
      else if is_linebreak c then cur # splitlines_acc [] cs
      else splitlines_acc (cur @ [c]) cs)"

definition splitlines :: "ustr \<Rightarrow> ustr list" where
  "splitlines s = splitlines_acc [] s"

subsection \<open>Line helpers of the \<open>omnitils.strings\<close> library\<close>

text \<open>
  \<open>get_line(text, i)\<close> is \<open>text.split('\n')[i]\<close>, raising \<open>IndexError\<close> when
  \<open>abs(i)\<close> exceeds the number of newlines; \<open>strip_lines(text, num)\<close> drops \<open>num\<close>
  leading lines (trailing ones when \<open>num\<close> is negative) and joins the rest again.
\<close>

definition get_line :: "ustr \<Rightarrow> int \<Rightarrow> error + ustr" where
  "get_line txt i =
     (let ls = py_split [NL] txt in
      if \<bar>i\<bar> > int (py_count NL txt) then Inl IndexError
      else if i < 0 then Inr (ls ! nat (int (length ls) + i))
      else Inr (ls ! nat i))"

definition strip_lines :: "ustr \<Rightarrow> int \<Rightarrow> ustr" where
  "strip_lines txt num =
     (let ls = py_split [NL] txt in
      if num = 0 then txt
      else if num < 0 then py_join [NL] (take (length ls - nat (- num)) ls)
      else py_join [NL] (drop (nat num) ls))"

section \<open>SagaLayout\<close>

text \<open>
  \<open>_chapter_regex = re.compile(r"^[ ,IVXLCDM]+ \<emdash> ")\<close>, used through \<open>match\<close>: one or
  more leading characters of the class, then space, em dash, space. \<open>chapter_rest\<close> is the
  matcher once a first class character is read: the literal follows here, or one more class
  character does.
\<close>

definition chapter_class :: "nat \<Rightarrow> bool" where
  "chapter_class c = (c \<in> set (u '' ,IVXLCDM''))"

fun chapter_rest :: "ustr \<Rightarrow> bool" where
  "chapter_rest [] = False"
| "chapter_rest (c # cs) =
     (take 3 (c # cs) = [SP, EM_DASH, SP] \<or> (chapter_class c \<and> chapter_rest cs))"

definition chapter_regex :: "ustr \<Rightarrow> bool" where
  "chapter_regex s = (case s of [] \<Rightarrow> False | c # cs \<Rightarrow> chapter_class c \<and> chapter_rest cs)"

definition saga_text :: "ustr \<Rightarrow> ustr" where
  "saga_text oracle_text = py_join [NL] (filter chapter_regex (splitlines oracle_text))"

fun ability_text_loop :: "ustr list \<Rightarrow> ustr" where
  "ability_text_loop [] = []"
| "ability_text_loop (line # rest) =
     (if \<not> chapter_regex line then py_join [NL] (line # rest)
      else ability_text_loop rest)"

definition ability_text :: "ustr \<Rightarrow> ustr" where
  "ability_text oracle_text = ability_text_loop (splitlines (strip_lines oracle_text 1))"

text \<open>\<open>remove_reminder\<close> is the setting \<open>CFG.remove_reminder\<close>.\<close>

definition saga_description :: "bool \<Rightarrow> ustr \<Rightarrow> error + ustr" where
  "saga_description remove_reminder oracle_text =
     (if remove_reminder then Inr []
      else case get_line oracle_text 0 of
             Inl e \<Rightarrow> Inl e
           | Inr line \<Rightarrow> Inr (if chapter_regex line then [] else line))"

record saga_line =
  sl_text :: ustr
  sl_icons :: "ustr list"

text \<open>
  The loop of \<open>saga_lines\<close>; \<open>i\<close> is the \<open>enumerate\<close> index and \<open>abilities\<close> the list
  built so far. \<open>abilities[-1]\<close> raises \<open>IndexError\<close> on an empty list.
\<close>

fun saga_lines_loop :: "nat \<Rightarrow> ustr list \<Rightarrow> saga_line list \<Rightarrow> error + saga_line list" where
  "saga_lines_loop i [] abilities = Inr abilities"
| "saga_lines_loop i (line # rest) abilities =
     (if py_contains [EM_DASH] line then
        (case py_split1 [EM_DASH] line of
           [icons, txt] \<Rightarrow>
             saga_lines_loop (Suc i) rest
               (abilities @ [\<lparr>sl_text = strip txt, sl_icons = py_split (u '', '') (strip icons)\<rparr>])
         | _ \<Rightarrow> Inl ValueError)
      else if i = 0 then
        saga_lines_loop (Suc i) rest (abilities @ [\<lparr>sl_text = line, sl_icons = []\<rparr>])
      else if abilities = [] then Inl IndexError
      else saga_lines_loop (Suc i) rest
             (butlast abilities @
                [(last abilities)\<lparr>sl_text := sl_text (last abilities) @ NL # line\<rparr>]))"

definition saga_lines :: "ustr \<Rightarrow> error + saga_line list" where
  "saga_lines oracle_text = saga_lines_loop 0 (py_split [NL] (saga_text oracle_text)) []"

text \<open>
  The chapter record that the specification describes for one chapter line: the part
  before the first em dash, stripped and cut at \<open>", "\<close>, gives the icons; the part after
  it, stripped, is the text.
\<close>

definition spec_chapter :: "ustr \<Rightarrow> saga_line" where
  "spec_chapter line =
     \<lparr>sl_text = strip (tl (dropWhile (\<lambda>c. c \<noteq> EM_DASH) line)),
      sl_icons = py_split (u '', '') (strip (takeWhile (\<lambda>c. c \<noteq> EM_DASH) line))\<rparr>"

text \<open>
  The reading of \<open>ability_text\<close> in the specification: of the lines after the first chapter
  line, exactly those that do not match the chapter pattern.
\<close>

definition spec_ability_text :: "ustr \<Rightarrow> ustr" where
  "spec_ability_text oracle_text =
     py_join [NL]
       (filter (\<lambda>l. \<not> chapter_regex l)
          (tl (dropWhile (\<lambda>l. \<not> chapter_regex l) (splitlines oracle_text))))"

text \<open>The Saga text of the specification's example, and a creature Saga with a late chapter.\<close>

definition saga_example :: ustr where
  "saga_example =
     u ''Read ahead.'' @ [NL] @ u ''I '' @ [EM_DASH] @ u '' Draw a card.'' @ [NL]
     @ u ''II '' @ [EM_DASH] @ u '' Deal 2 damage.'' @ [NL]
     @ u ''III '' @ [EM_DASH] @ u '' Gain 3 life.''"

definition saga_late_chapter :: ustr where
  "saga_late_chapter =
     u ''Read ahead.'' @ [NL] @ u ''I '' @ [EM_DASH] @ u '' Draw a card.'' @ [NL]
     @ u ''Flying'' @ [NL] @ u ''II '' @ [EM_DASH] @ u '' Gain 3 life.''"


section \<open>PlaneswalkerLayout\<close>





text \<open>The replacement of the minus sign U+2212 by the hyphen in \<open>PlaneswalkerLayout.oracle_text\<close>.\<close>

definition fix_minus :: "ustr \<Rightarrow> ustr" where
  "fix_minus s = map (\<lambda>c. if c = 8722 then 45 else c) s"









section \<open>Collector number\<close>

text \<open>
  The Unicode tables behind \<open>str.isdigit\<close> and \<open>int\<close> (Unicode 14, as in CPython
  3.11). The decimal digits come in runs of ten, each run counting from zero;
  \<open>str.isdigit\<close> also accepts the superscript, subscript and circled digits, which
  \<open>int\<close> refuses.
\<close>

definition decimal_ranges :: "(nat \<times> nat) list" where
  "decimal_ranges =
     [(48, 57), (1632, 1641), (1776, 1785), (1984, 1993), (2406, 2415), (2534, 2543),
      (2662, 2671), (2790, 2799), (2918, 2927), (3046, 3055), (3174, 3183), (3302, 3311),
      (3430, 3439), (3558, 3567), (3664, 3673), (3792, 3801), (3872, 3881), (4160, 4169),
      (4240, 4249), (6112, 6121), (6160, 6169), (6470, 6479), (6608, 6617), (6784, 6793),
      (6800, 6809), (6992, 7001), (7088, 7097), (7232, 7241), (7248, 7257), (42528, 42537),
      (43216, 43225), (43264, 43273), (43472, 43481), (43504, 43513), (43600, 43609),
      (44016, 44025), (65296, 65305), (66720, 66729), (68912, 68921), (69734, 69743),
      (69872, 69881), (69942, 69951), (70096, 70105), (70384, 70393), (70736, 70745),
      (70864, 70873), (71248, 71257), (71360, 71369), (71472, 71481), (71904, 71913),
      (72016, 72025), (72784, 72793), (73040, 73049), (73120, 73129), (92768, 92777),
      (92864, 92873), (93008, 93017), (120782, 120831), (123200, 123209), (123632, 123641),
      (125264, 125273), (130032, 130041)]"

definition other_digit_ranges :: "(nat \<times> nat) list" where
  "other_digit_ranges =
     [(178, 179), (185, 185), (4969, 4977), (6618, 6618), (8304, 8304), (8308, 8313),
      (8320, 8329), (9312, 9320), (9332, 9340), (9352, 9360), (9450, 9450), (9461, 9469),
      (9471, 9471), (10102, 10110), (10112, 10120), (10122, 10130), (68160, 68163),
      (69216, 69224), (69714, 69722), (127232, 127242)]"

definition in_ranges :: "nat \<Rightarrow> (nat \<times> nat) list \<Rightarrow> bool" where
  "in_ranges c rs = list_ex (\<lambda>(lo, hi). lo \<le> c \<and> c \<le> hi) rs"

definition py_isdecimal :: "nat \<Rightarrow> bool" where
  "py_isdecimal c = in_ranges c decimal_ranges"

definition py_isdigit :: "nat \<Rightarrow> bool" where
  "py_isdigit c = (py_isdecimal c \<or> in_ranges c other_digit_ranges)"

definition decimal_value :: "nat \<Rightarrow> nat" where
  "decimal_value c =
     (case find (\<lambda>(lo, hi). lo \<le> c \<and> c \<le> hi) decimal_ranges of
        Some (lo, hi) \<Rightarrow> (c - lo) mod 10
      | None \<Rightarrow> 0)"

text \<open>
  \<open>int(s)\<close> for a string whose characters all pass \<open>str.isdigit\<close>: \<open>ValueError\<close> on
  the empty string, on a digit that is not decimal, and on more than 4300 digits (the
  limit of CPython 3.11 on the conversion).
\<close>

definition py_int :: "ustr \<Rightarrow> error + int" where
  "py_int s =
     (if s = [] \<or> \<not> list_all py_isdecimal s \<or> length s > 4300 then Inl ValueError
      else Inr (int (foldl (\<lambda>acc c. 10 * acc + decimal_value c) 0 s)))"

text \<open>\<open>NormalLayout.collector_number\<close>, from \<open>collector_number_raw\<close>.\<close>

definition collector_number :: "ustr option \<Rightarrow> error + int" where
  "collector_number collector_number_raw =
     (case collector_number_raw of
        None \<Rightarrow> Inr 0
      | Some raw \<Rightarrow> if raw = [] then Inr 0 else py_int (filter py_isdigit raw))"

section \<open>Card data, art file details and settings\<close>

text \<open>
  One face object of the card database: the keys that the layout classes read from
  \<open>self.card\<close>. \<open>None\<close> stands for a key that is absent.
\<close>

record face =
  fc_name :: "ustr option"
  fc_printed_name :: "ustr option"
  fc_mana_cost :: "ustr option"
  fc_type_line :: "ustr option"
  fc_oracle_text :: "ustr option"
  fc_printed_text :: "ustr option"
  fc_watermark :: "ustr option"

text \<open>
  The layout tags of \<open>LayoutScryfall\<close> that \<open>layout_map\<close> has an entry for (the enumeration
  itself is declared in \<open>src/enums/mtg.py\<close>).
\<close>

datatype LayoutScryfall =
    LS_Normal | LS_Split | LS_Transform | LS_MDFC | LS_Meld | LS_Leveler | LS_Case | LS_Class
  | LS_Saga | LS_Adventure | LS_Mutate | LS_Prototype | LS_Battle | LS_Planar | LS_Token
  | LS_Emblem | LS_Planeswalker | LS_PlaneswalkerMDFC | LS_PlaneswalkerTransform | LS_Station
  | LS_Flip | LS_Scheme | LS_Vanguard | LS_DoubleFacedToken | LS_Augment | LS_Host
  | LS_ArtSeries | LS_ReversibleCard

text \<open>
  The card object \<open>self.scryfall\<close>: it has the keys of a face itself, and the keys that
  only the top level carries.
\<close>

record scryfall = face +
  sf_card_faces :: "face list option"
  sf_set :: "ustr option"
  sf_collector_number :: "ustr option"
  sf_lang :: "ustr option"
  sf_keywords :: "ustr list option"
  sf_front :: "bool option option"
  sf_oracle_id :: "ustr option"
  sf_layout :: "LayoutScryfall option"

text \<open>\<open>CardDetails\<close>, parsed from the name of the art file; paths are kept as text.\<close>

type_synonym path = ustr

record card_details =
  cd_name :: ustr
  cd_file :: path
  cd_artist :: "ustr option"

datatype WatermarkMode = Disabled | Forced | Automatic | Fallback

text \<open>
  What the layout code takes from outside \<open>src/layouts.py\<close>: the settings \<open>CFG\<close>, the
  library function \<open>normalize_str\<close>, \<open>str.upper\<close> and \<open>str.lower\<close>, the watermark and
  set data lookups, the first printing of a card, and the match of
  \<open>CardTextPatterns.TEXT_REMINDER_ENDING\<close> (its group 1, when the text matches).
\<close>

record env =
  normalize_str :: "ustr \<Rightarrow> ustr"
  str_upper :: "ustr \<Rightarrow> ustr"
  str_lower :: "ustr \<Rightarrow> ustr"
  cfg_lang :: ustr
  cfg_watermark_mode :: WatermarkMode
  cfg_watermark_default :: ustr
  get_watermark_svg :: "ustr \<Rightarrow> path option"
  get_watermark_svg_from_set :: "ustr \<Rightarrow> path option"
  first_print_set :: "ustr \<Rightarrow> ustr option"
  set_code_parent :: "ustr \<Rightarrow> ustr option"
  reminder_ending :: "ustr \<Rightarrow> ustr option"

section \<open>Layout objects\<close>

datatype layout_class =
    NormalLayout | MutateLayout | PrototypeLayout | PlaneswalkerLayout
  | PlaneswalkerTransformLayout | PlaneswalkerMDFCLayout | TransformLayout
  | ModalDoubleFacedLayout | AdventureLayout | LevelerLayout | SagaLayout | ClassLayout
  | CaseLayout | BattleLayout | PlanarLayout | SplitLayout | TokenLayout | StationLayout

fun layout_map :: "LayoutScryfall \<Rightarrow> layout_class" where
  "layout_map LS_Normal = NormalLayout"
| "layout_map LS_Split = SplitLayout"
| "layout_map LS_Transform = TransformLayout"
| "layout_map LS_MDFC = ModalDoubleFacedLayout"
| "layout_map LS_Meld = TransformLayout"
| "layout_map LS_Leveler = LevelerLayout"
| "layout_map LS_Case = CaseLayout"
| "layout_map LS_Class = ClassLayout"
| "layout_map LS_Saga = SagaLayout"
| "layout_map LS_Adventure = AdventureLayout"
| "layout_map LS_Mutate = MutateLayout"
| "layout_map LS_Prototype = PrototypeLayout"
| "layout_map LS_Battle = BattleLayout"
| "layout_map LS_Planar = PlanarLayout"
| "layout_map LS_Token = TokenLayout"
| "layout_map LS_Emblem = TokenLayout"
| "layout_map LS_Planeswalker = PlaneswalkerLayout"
| "layout_map LS_PlaneswalkerMDFC = PlaneswalkerMDFCLayout"
| "layout_map LS_PlaneswalkerTransform = PlaneswalkerTransformLayout"
| "layout_map LS_Station = StationLayout"
| "layout_map LS_Flip = TransformLayout"
| "layout_map LS_Scheme = NormalLayout"
| "layout_map LS_Vanguard = NormalLayout"
| "layout_map LS_DoubleFacedToken = TransformLayout"
| "layout_map LS_Augment = NormalLayout"
| "layout_map LS_Host = NormalLayout"
| "layout_map LS_ArtSeries = TokenLayout"
| "layout_map LS_ReversibleCard = TransformLayout"

text \<open>
  The value of the attribute \<open>art_file\<close>: the \<open>Path\<close> that the property computes, or the
  list that \<open>join_dual_card_layouts\<close> assigns.
\<close>

datatype art_value = APath path | AList "path list"

text \<open>
  A layout object: its class, the two dictionaries given to \<open>__init__\<close>, and the entry
  \<open>art_file\<close> of the instance dictionary (\<open>None\<close> while the cached property has not been
  read or assigned).
\<close>

record layout_obj =
  lo_class :: layout_class
  lo_scryfall :: scryfall
  lo_file :: card_details
  lo_art_file :: "art_value option"

text \<open>\<open>layout_map[scryfall['layout']](scryfall, card)\<close>, the step of \<open>assign_layout\<close>.\<close>

definition make_layout :: "LayoutScryfall \<Rightarrow> scryfall \<Rightarrow> card_details \<Rightarrow> layout_obj" where
  "make_layout tag sf file =
     \<lparr>lo_class = layout_map tag, lo_scryfall = sf, lo_file = file, lo_art_file = None\<rparr>"

datatype LayoutType =
    Normal | Mutate | Prototype | Planeswalker | PlaneswalkerTransformFront
  | PlaneswalkerTransformBack | PlaneswalkerMDFCFront | PlaneswalkerMDFCBack
  | TransformFront | TransformBack | MDFCFront | MDFCBack | Adventure | Leveler | Saga
  | Class | Case | Battle | Planar | Split | Station

text \<open>
  \<open>is_front\<close> is \<open>bool(self.scryfall.get('front', True))\<close>: the key \<open>front\<close> may be
  absent (\<open>None\<close>), hold null (\<open>Some None\<close>) or hold a truth value.
\<close>

definition is_front :: "layout_obj \<Rightarrow> bool" where
  "is_front obj =
     (case sf_front (lo_scryfall obj) of
        None \<Rightarrow> True
      | Some None \<Rightarrow> False
      | Some (Some b) \<Rightarrow> b)"

text \<open>\<open>card_class\<close>; \<open>TokenLayout\<close> declares none and inherits that of \<open>NormalLayout\<close>.\<close>

definition card_class :: "layout_obj \<Rightarrow> LayoutType" where
  "card_class obj =
     (case lo_class obj of
        NormalLayout \<Rightarrow> Normal
      | MutateLayout \<Rightarrow> Mutate
      | PrototypeLayout \<Rightarrow> Prototype
      | PlaneswalkerLayout \<Rightarrow> Planeswalker
      | PlaneswalkerTransformLayout \<Rightarrow>
          if is_front obj then PlaneswalkerTransformFront else PlaneswalkerTransformBack
      | PlaneswalkerMDFCLayout \<Rightarrow>
          if is_front obj then PlaneswalkerMDFCFront else PlaneswalkerMDFCBack
      | TransformLayout \<Rightarrow> if is_front obj then TransformFront else TransformBack
      | ModalDoubleFacedLayout \<Rightarrow> if is_front obj then MDFCFront else MDFCBack
      | AdventureLayout \<Rightarrow> Adventure
      | LevelerLayout \<Rightarrow> Leveler
      | SagaLayout \<Rightarrow> Saga
      | ClassLayout \<Rightarrow> Class
      | CaseLayout \<Rightarrow> Case
      | BattleLayout \<Rightarrow> Battle
      | PlanarLayout \<Rightarrow> Planar
      | SplitLayout \<Rightarrow> Split
      | TokenLayout \<Rightarrow> Normal
      | StationLayout \<Rightarrow> Station)"

text \<open>\<open>d.get(key, default)\<close> on a key that holds text.\<close>

definition get_or :: "'a option \<Rightarrow> 'a \<Rightarrow> 'a" where
  "get_or v d = (case v of None \<Rightarrow> d | Some x \<Rightarrow> x)"

definition lang :: "env \<Rightarrow> layout_obj \<Rightarrow> ustr" where
  "lang E obj = str_upper E (get_or (sf_lang (lo_scryfall obj)) (cfg_lang E))"

definition is_alt_lang :: "env \<Rightarrow> layout_obj \<Rightarrow> bool" where
  "is_alt_lang E obj = (lang E obj \<noteq> u ''EN'')"

text \<open>\<open>set\<close>: \<open>NormalLayout.set\<close>, and the override of \<open>TokenLayout\<close>.\<close>

definition layout_set :: "env \<Rightarrow> layout_obj \<Rightarrow> ustr" where
  "layout_set E obj =
     (let base = str_upper E (get_or (sf_set (lo_scryfall obj)) (u ''MTG'')) in
      if lo_class obj = TokenLayout
      then str_upper E
             (get_or (set_code_parent E (str_lower E (get_or (sf_set (lo_scryfall obj)) (u ''mtg''))))
                base)
      else base)"

text \<open>The property \<open>keywords\<close>.\<close>

definition keyword_list :: "layout_obj \<Rightarrow> ustr list" where
  "keyword_list obj = get_or (sf_keywords (lo_scryfall obj)) []"

definition input_name :: "layout_obj \<Rightarrow> ustr" where
  "input_name obj = cd_name (lo_file obj)"

text \<open>\<open>SplitLayout.cards\<close>.\<close>

definition cards :: "layout_obj \<Rightarrow> face list" where
  "cards obj = get_or (sf_card_faces (lo_scryfall obj)) []"

text \<open>\<open>SplitLayout.names\<close>.\<close>

definition names :: "env \<Rightarrow> layout_obj \<Rightarrow> ustr list" where
  "names E obj =
     map (\<lambda>c. if is_alt_lang E obj
               then get_or (fc_printed_name c) (get_or (fc_name c) [])
               else get_or (fc_name c) [])
       (cards obj)"

text \<open>\<open>SplitLayout.name\<close> is \<open>self.names[0]\<close>.\<close>

definition split_name :: "env \<Rightarrow> layout_obj \<Rightarrow> error + ustr" where
  "split_name E obj = (case names E obj of [] \<Rightarrow> Inl IndexError | n # _ \<Rightarrow> Inr n)"

text \<open>
  The loop of \<open>NormalLayout.card\<close>: \<open>face['name']\<close> raises \<open>KeyError\<close> on a face without
  a name; \<open>None\<close> is the loop running to its end.
\<close>

fun card_loop :: "env \<Rightarrow> ustr \<Rightarrow> face list \<Rightarrow> error + face option" where
  "card_loop E nm [] = Inr None"
| "card_loop E nm (fc # rest) =
     (case fc_name fc of
        None \<Rightarrow> Inl KeyError
      | Some n \<Rightarrow>
          if normalize_str E n = normalize_str E nm then Inr (Some fc)
          else card_loop E nm rest)"

text \<open>
  \<open>card\<close>: \<open>NormalLayout.card\<close>, which every class but one inherits, and the override
  \<open>SplitLayout.card\<close>, which is \<open>self.cards[0]\<close>.
\<close>

definition card :: "env \<Rightarrow> layout_obj \<Rightarrow> error + face" where
  "card E obj =
     (if lo_class obj = SplitLayout then
        (case cards obj of [] \<Rightarrow> Inl IndexError | c # _ \<Rightarrow> Inr c)
      else
        (case card_loop E (input_name obj) (get_or (sf_card_faces (lo_scryfall obj)) []) of
           Inl e \<Rightarrow> Inl e
         | Inr (Some fc) \<Rightarrow> Inr fc
         | Inr None \<Rightarrow> Inr (face.truncate (lo_scryfall obj))))"

text \<open>
  Fields read from \<open>self.card\<close>. \<open>SplitLayout\<close> overrides \<open>name_raw\<close> with
  \<open>f"{self.name[0]} _ {self.name[1]}"\<close>, and \<open>mana_cost\<close> with \<open>self.mana_costs[0]\<close>,
  which is the mana cost of \<open>self.cards[0]\<close> again.
\<close>

definition name_raw :: "env \<Rightarrow> layout_obj \<Rightarrow> error + ustr" where
  "name_raw E obj =
     (if lo_class obj = SplitLayout then
        (case split_name E obj of
           Inl e \<Rightarrow> Inl e
         | Inr n \<Rightarrow> (case n of a # b # _ \<Rightarrow> Inr ([a] @ u '' _ '' @ [b]) | _ \<Rightarrow> Inl IndexError))
      else map_sum id (\<lambda>c. get_or (fc_name c) []) (card E obj))"

definition mana_cost :: "env \<Rightarrow> layout_obj \<Rightarrow> error + ustr" where
  "mana_cost E obj = map_sum id (\<lambda>c. get_or (fc_mana_cost c) []) (card E obj)"

text \<open>
  \<open>oracle_text_raw\<close>: of \<open>NormalLayout\<close>, and the override of \<open>PlaneswalkerLayout\<close>
  (inherited by its two subclasses), which replaces the minus sign in it.
\<close>

definition is_planeswalker_class :: "layout_class \<Rightarrow> bool" where
  "is_planeswalker_class cls =
     (cls = PlaneswalkerLayout \<or> cls = PlaneswalkerTransformLayout \<or> cls = PlaneswalkerMDFCLayout)"

definition oracle_text_raw :: "env \<Rightarrow> layout_obj \<Rightarrow> error + ustr" where
  "oracle_text_raw E obj =
     (if is_planeswalker_class (lo_class obj)
      then map_sum id (\<lambda>c. fix_minus (get_or (fc_oracle_text c) [])) (card E obj)
      else map_sum id (\<lambda>c. get_or (fc_oracle_text c) []) (card E obj))"

definition type_line_raw :: "env \<Rightarrow> layout_obj \<Rightarrow> error + ustr" where
  "type_line_raw E obj = map_sum id (\<lambda>c. get_or (fc_type_line c) []) (card E obj)"

text \<open>\<open>SplitLayout.watermarks_raw\<close>.\<close>

definition watermarks_raw :: "layout_obj \<Rightarrow> ustr option list" where
  "watermarks_raw obj = map (\<lambda>c. Some (get_or (fc_watermark c) [])) (cards obj)"

text \<open>\<open>watermark_raw\<close>: of \<open>NormalLayout\<close>, and \<open>watermarks_raw[0]\<close> in \<open>SplitLayout\<close>.\<close>

definition watermark_raw :: "env \<Rightarrow> layout_obj \<Rightarrow> error + ustr option" where
  "watermark_raw E obj =
     (if lo_class obj = SplitLayout then
        (case watermarks_raw obj of [] \<Rightarrow> Inl IndexError | w # _ \<Rightarrow> Inr w)
      else map_sum id fc_watermark (card E obj))"

section \<open>Watermarks\<close>

text \<open>
  The inner function \<open>_find_watermark_svg\<close>, the same in \<open>NormalLayout.watermark_svg\<close>
  and in \<open>SplitLayout.watermark_svgs\<close>.
\<close>

definition find_watermark_svg :: "env \<Rightarrow> layout_obj \<Rightarrow> ustr option \<Rightarrow> path option" where
  "find_watermark_svg E obj wm =
     (case wm of
        None \<Rightarrow> None
      | Some w \<Rightarrow>
          if w = [] then None
          else
            (let w' = str_lower E w in
             if w' \<in> set [u ''set'', u ''symbol''] then
               get_watermark_svg_from_set E
                 (if w' = u ''set''
                  then get_or (first_print_set E (get_or (sf_oracle_id (lo_scryfall obj)) []))
                         (layout_set E obj)
                  else layout_set E obj)
             else get_watermark_svg E w'))"

text \<open>One round of the loop of \<open>watermark_svgs\<close>, for the raw key \<open>w\<close> of one face.\<close>

definition watermark_svgs_step :: "env \<Rightarrow> layout_obj \<Rightarrow> ustr option \<Rightarrow> path option" where
  "watermark_svgs_step E obj w =
     (if cfg_watermark_mode E = Disabled then None
      else if cfg_watermark_mode E = Forced
      then find_watermark_svg E obj (Some (cfg_watermark_default E))
      else
        (let path = find_watermark_svg E obj w in
         if path \<noteq> None \<or> cfg_watermark_mode E = Automatic then path
         else find_watermark_svg E obj (Some (cfg_watermark_default E))))"

definition watermark_svgs :: "env \<Rightarrow> layout_obj \<Rightarrow> path option list" where
  "watermark_svgs E obj = map (watermark_svgs_step E obj) (watermarks_raw obj)"

text \<open>
  \<open>watermark_svg\<close>: \<open>NormalLayout.watermark_svg\<close>, and the override of \<open>SplitLayout\<close>,
  which is \<open>self.watermark_svgs[0]\<close>.
\<close>

definition watermark_svg :: "env \<Rightarrow> layout_obj \<Rightarrow> error + path option" where
  "watermark_svg E obj =
     (if lo_class obj = SplitLayout then
        (case watermark_svgs E obj of [] \<Rightarrow> Inl IndexError | w # _ \<Rightarrow> Inr w)
      else if cfg_watermark_mode E = Disabled then Inr None
      else if cfg_watermark_mode E = Forced
      then Inr (find_watermark_svg E obj (Some (cfg_watermark_default E)))
      else
        (case watermark_raw E obj of
           Inl e \<Rightarrow> Inl e
         | Inr raw \<Rightarrow>
             (let path = find_watermark_svg E obj raw in
              if path \<noteq> None \<or> cfg_watermark_mode E = Automatic then Inr path
              else Inr (find_watermark_svg E obj (Some (cfg_watermark_default E))))))"

text \<open>
  The four-mode policy of the specification for one face with raw key \<open>raw\<close>, written over
  the key resolution \<open>resolve\<close>.
\<close>

definition spec_watermark :: "WatermarkMode \<Rightarrow> (ustr option \<Rightarrow> path option) \<Rightarrow> ustr \<Rightarrow> ustr option \<Rightarrow> path option" where
  "spec_watermark mode resolve default_key raw =
     (case mode of
        Disabled \<Rightarrow> None
      | Forced \<Rightarrow> resolve (Some default_key)
      | Automatic \<Rightarrow> resolve raw
      | Fallback \<Rightarrow> (case resolve raw of Some p \<Rightarrow> Some p | None \<Rightarrow> resolve (Some default_key)))"

section \<open>SplitLayout texts\<close>

definition face_texts :: "env \<Rightarrow> layout_obj \<Rightarrow> ustr list" where
  "face_texts E obj =
     map (\<lambda>c. if is_alt_lang E obj
               then get_or (fc_printed_text c) (get_or (fc_oracle_text c) [])
               else get_or (fc_oracle_text c) [])
       (cards obj)"

fun shared_reminder_loop :: "env \<Rightarrow> ustr \<Rightarrow> ustr list \<Rightarrow> ustr" where
  "shared_reminder_loop E prev_match [] = prev_match"
| "shared_reminder_loop E prev_match (oracle_text # rest) =
     (case reminder_ending E oracle_text of
        None \<Rightarrow> []
      | Some curr_match \<Rightarrow>
          if prev_match \<noteq> [] \<and> prev_match \<noteq> curr_match then []
          else shared_reminder_loop E curr_match rest)"

definition shared_reminder :: "env \<Rightarrow> layout_obj \<Rightarrow> ustr" where
  "shared_reminder E obj = shared_reminder_loop E [] (face_texts E obj)"

definition oracle_texts :: "env \<Rightarrow> layout_obj \<Rightarrow> ustr list" where
  "oracle_texts E obj =
     map (\<lambda>t. if u ''Fuse'' \<in> set (keyword_list obj)
               then py_join [] (butlast (py_split [NL] t))
               else if shared_reminder E obj \<noteq> []
               then rstrip (take (length t - length (shared_reminder E obj)) t)
               else t)
       (face_texts E obj)"

text \<open>
  The specification's reading of the Fuse case: the final line is dropped, the other lines
  and their line breaks stay.
\<close>

definition spec_fuse_text :: "ustr \<Rightarrow> ustr" where
  "spec_fuse_text t = py_join [NL] (butlast (py_split [NL] t))"

section \<open>Concrete settings and cards for the examples\<close>

text \<open>
  Stand-ins for the library functions. \<open>str.upper\<close> and \<open>str.lower\<close> are exact on ASCII
  text, where they change the letters only. \<open>normalize_str\<close> of \<open>omnitils\<close> folds accented
  letters to their base letter and drops what is not ASCII after that, drops the
  characters of \<open>string.punctuation\<close>, lowers the rest and trims it; the stand-in is exact
  on ASCII and Latin-1 text: \<open>fold_latin1\<close> is the decomposition of the accented letters
  of Latin-1 without the accent, and drops every other character that is not ASCII. The
  theorems about all settings do not depend on these stand-ins.
\<close>

definition ascii_upper :: "ustr \<Rightarrow> ustr" where
  "ascii_upper s = map (\<lambda>c. if 97 \<le> c \<and> c \<le> 122 then c - 32 else c) s"

definition ascii_lower :: "ustr \<Rightarrow> ustr" where
  "ascii_lower s = map (\<lambda>c. if 65 \<le> c \<and> c \<le> 90 then c + 32 else c) s"

definition ascii_punctuation :: "nat \<Rightarrow> bool" where
  "ascii_punctuation c =
     ((33 \<le> c \<and> c \<le> 47) \<or> (58 \<le> c \<and> c \<le> 64) \<or> (91 \<le> c \<and> c \<le> 96)
      \<or> (123 \<le> c \<and> c \<le> 126))"

definition fold_latin1 :: "nat \<Rightarrow> ustr" where
  "fold_latin1 c =
     (if c < 128 then [c]
      else if 192 \<le> c \<and> c \<le> 197 then [65]
      else if c = 199 then [67]
      else if 200 \<le> c \<and> c \<le> 203 then [69]
      else if 204 \<le> c \<and> c \<le> 207 then [73]
      else if c = 209 then [78]
      else if 210 \<le> c \<and> c \<le> 214 then [79]
      else if 217 \<le> c \<and> c \<le> 220 then [85]
      else if c = 221 then [89]
      else if 224 \<le> c \<and> c \<le> 229 then [97]
      else if c = 231 then [99]
      else if 232 \<le> c \<and> c \<le> 235 then [101]
      else if 236 \<le> c \<and> c \<le> 239 then [105]
      else if c = 241 then [110]
      else if 242 \<le> c \<and> c \<le> 246 then [111]
      else if 249 \<le> c \<and> c \<le> 252 then [117]
      else if c = 253 \<or> c = 255 then [121]
      else [])"

definition normalize_ascii :: "ustr \<Rightarrow> ustr" where
  "normalize_ascii s =
     strip (ascii_lower (filter (\<lambda>c. \<not> ascii_punctuation c) (concat (map fold_latin1 s))))"

definition env0 :: env where
  "env0 =
     \<lparr>normalize_str = normalize_ascii,
      str_upper = ascii_upper,
      str_lower = ascii_lower,
      cfg_lang = u ''en'',
      cfg_watermark_mode = Fallback,
      cfg_watermark_default = u ''wotc'',
      get_watermark_svg =
        (\<lambda>k. if k = u ''wotc'' then Some (u ''wotc.svg'')
             else if k = u ''izzet'' then Some (u ''izzet.svg'')
             else None),
      get_watermark_svg_from_set =
        (\<lambda>k. if k = u ''DMR'' then Some (u ''set/DMR.svg'') else None),
      first_print_set = (\<lambda>k. None),
      set_code_parent = (\<lambda>k. None),
      reminder_ending = (\<lambda>t. None)\<rparr>"

definition mk_face :: "ustr \<Rightarrow> ustr \<Rightarrow> ustr \<Rightarrow> face" where
  "mk_face nm cost txt =
     \<lparr>fc_name = Some nm, fc_printed_name = None, fc_mana_cost = Some cost,
      fc_type_line = Some (u ''Instant''), fc_oracle_text = Some txt, fc_printed_text = None,
      fc_watermark = None\<rparr>"

definition fire_face :: face where
  "fire_face = mk_face (u ''Fire'') (u ''{1}{R}'') (u ''Deal 2 damage.'')"

definition ice_face :: face where
  "ice_face = mk_face (u ''Ice'') (u ''{1}{U}'') (u ''Tap target permanent.'')"

text \<open>A two-faced card of the database, with the layout tag and keywords left open.\<close>

definition mk_card :: "LayoutScryfall \<Rightarrow> ustr list \<Rightarrow> face \<Rightarrow> face \<Rightarrow> scryfall" where
  "mk_card tag kws a b =
     \<lparr>fc_name = Some (get_or (fc_name a) [] @ u '' // '' @ get_or (fc_name b) []),
      fc_printed_name = None, fc_mana_cost = None, fc_type_line = None,
      fc_oracle_text = None, fc_printed_text = None, fc_watermark = None,
      sf_card_faces = Some [a, b], sf_set = Some (u ''dmr''),
      sf_collector_number = Some (u ''215''), sf_lang = Some (u ''en''),
      sf_keywords = Some kws, sf_front = None, sf_oracle_id = None, sf_layout = Some tag\<rparr>"

definition mk_file :: "ustr \<Rightarrow> card_details" where
  "mk_file nm = \<lparr>cd_name = nm, cd_file = u ''art/'' @ nm @ u ''.png'', cd_artist = None\<rparr>"

text \<open>The split card Fire // Ice classified from the art file named after its second face.\<close>

definition ice_layout :: layout_obj where
  "ice_layout = make_layout LS_Split (mk_card LS_Split [] fire_face ice_face) (mk_file (u ''Ice''))"

text \<open>The same two faces as a modal double-faced card, again from the file of the second.\<close>

definition ice_mdfc_layout :: layout_obj where
  "ice_mdfc_layout = make_layout LS_MDFC (mk_card LS_MDFC [] fire_face ice_face) (mk_file (u ''Ice''))"

text \<open>A Fuse card whose first half has two lines of rules text before the Fuse line.\<close>

definition fuse_layout :: layout_obj where
  "fuse_layout =
     make_layout LS_Split
       (mk_card LS_Split [u ''Fuse'']
          (mk_face (u ''Here'') (u ''{R}'')
             (u ''Draw a card.'' @ [NL] @ u ''Gain 1 life.'' @ [NL] @ u ''Fuse''))
          (mk_face (u ''There'') (u ''{U}'') (u ''Scry 1.'' @ [NL] @ u ''Fuse'')))
       (mk_file (u ''Here''))"

text \<open>
  The face that the claim about single-face fields names: the first face whose normalized
  name equals the normalized name of the art file, else the top-level object.
\<close>

definition spec_card :: "env \<Rightarrow> layout_obj \<Rightarrow> face" where
  "spec_card E obj =
     (case find (\<lambda>fc. normalize_str E (get_or (fc_name fc) []) = normalize_str E (input_name obj))
             (get_or (sf_card_faces (lo_scryfall obj)) []) of
        Some fc \<Rightarrow> fc
      | None \<Rightarrow> face.truncate (lo_scryfall obj))"

text \<open>A card of the database without \<open>card_faces\<close>.\<close>

definition single_layout :: layout_obj where
  "single_layout =
     make_layout LS_Normal
       ((mk_card LS_Normal [] fire_face ice_face)\<lparr>sf_card_faces := None\<rparr>)
       (mk_file (u ''Fire''))"

text \<open>
  Faces with a watermark key: the sentinel \<open>set\<close> on Fire, the guild Izzet on Ice, and a key
  that no asset exists for.
\<close>

definition set_face :: face where
  "set_face = fire_face\<lparr>fc_watermark := Some (u ''set'')\<rparr>"

definition izzet_face :: face where
  "izzet_face = ice_face\<lparr>fc_watermark := Some (u ''Izzet'')\<rparr>"

definition orphan_face :: face where
  "orphan_face = ice_face\<lparr>fc_watermark := Some (u ''Foo'')\<rparr>"

definition marked_mdfc_layout :: layout_obj where
  "marked_mdfc_layout =
     make_layout LS_MDFC (mk_card LS_MDFC [] set_face izzet_face) (mk_file (u ''Ice''))"

definition orphan_mdfc_layout :: layout_obj where
  "orphan_mdfc_layout =
     make_layout LS_MDFC (mk_card LS_MDFC [] set_face orphan_face) (mk_file (u ''Ice''))"

definition marked_split_layout :: layout_obj where
  "marked_split_layout =
     make_layout LS_Split (mk_card LS_Split [] set_face izzet_face) (mk_file (u ''Ice''))"

text \<open>A Planeswalker without \<open>card_faces\<close> whose ability cost is written with U+2212.\<close>

definition walker_layout :: layout_obj where
  "walker_layout =
     make_layout LS_Planeswalker
       ((mk_card LS_Planeswalker [] fire_face ice_face)
          \<lparr>fc_oracle_text := Some ([8722] @ u ''2: Draw a card.''), sf_card_faces := None\<rparr>)
       (mk_file (u ''Jace''))"

section \<open>SplitLayout display string\<close>

text \<open>\<open>SplitLayout.display_name\<close> is \<open>f"{self.names[0]} // {self.names[1]}"\<close>.\<close>

definition display_name :: "env \<Rightarrow> layout_obj \<Rightarrow> error + ustr" where
  "display_name E obj =
     (case names E obj of
        a # b # _ \<Rightarrow> Inr (a @ u '' // '' @ b)
      | _ \<Rightarrow> Inl IndexError)"

text \<open>\<open>str(n)\<close> for a natural number.\<close>

fun str_nat :: "nat \<Rightarrow> ustr" where
  "str_nat n = (if n < 10 then [48 + n] else str_nat (n div 10) @ [48 + n mod 10])"

text \<open>\<open>SplitLayout.__str__\<close>: display name, set and collector number.\<close>

definition split_str :: "env \<Rightarrow> layout_obj \<Rightarrow> error + ustr" where
  "split_str E obj =
     (case display_name E obj of
        Inl e \<Rightarrow> Inl e
      | Inr d \<Rightarrow>
          (case collector_number (sf_collector_number (lo_scryfall obj)) of
             Inl e \<Rightarrow> Inl e
           | Inr n \<Rightarrow>
               Inr (d
                    @ (if layout_set E obj \<noteq> [] then u '' ['' @ layout_set E obj @ u '']'' else [])
                    @ (if n \<noteq> 0 then u '' {'' @ str_nat (nat n) @ u ''}'' else []))))"

section \<open>The art files of a Split layout\<close>

definition art_files :: "layout_obj \<Rightarrow> path list" where
  "art_files obj = [cd_file (lo_file obj)]"

text \<open>
  Reading the attribute \<open>art_file\<close>: the assigned value when there is one, else the value of
  the property \<open>SplitLayout.art_file\<close>, which is the \<open>Path\<close> \<open>self.art_files[0]\<close>.
\<close>

definition art_file :: "layout_obj \<Rightarrow> art_value" where
  "art_file obj =
     (case lo_art_file obj of
        Some v \<Rightarrow> v
      | None \<Rightarrow> APath (hd (art_files obj)))"

text \<open>Unpacking \<open>*x\<close> inside a list display: a \<open>Path\<close> is not iterable.\<close>

definition unpack :: "art_value \<Rightarrow> error + path list" where
  "unpack v = (case v of APath p \<Rightarrow> Inl TypeError | AList ps \<Rightarrow> Inr ps)"

text \<open>
  The test \<open>normalize_str(card.name[0]) == normalize_str(card.file['name'])\<close>:
  \<open>card.name\<close> is a string here, so \<open>card.name[0]\<close> is its first character.
\<close>

definition name_matches_file :: "env \<Rightarrow> layout_obj \<Rightarrow> error + bool" where
  "name_matches_file E obj =
     (case split_name E obj of
        Inl e \<Rightarrow> Inl e
      | Inr n \<Rightarrow>
          (case n of
             [] \<Rightarrow> Inl IndexError
           | ch # _ \<Rightarrow> Inr (normalize_str E [ch] = normalize_str E (cd_name (lo_file obj)))))"

text \<open>
  The right-hand side of the assignment to \<open>card.art_file\<close>: the condition first, then the
  chosen list display, its items from left to right.
\<close>

definition joined_art_file :: "env \<Rightarrow> layout_obj \<Rightarrow> layout_obj \<Rightarrow> error + path list" where
  "joined_art_file E crd c =
     (case name_matches_file E crd of
        Inl e \<Rightarrow> Inl e
      | Inr True \<Rightarrow>
          (case unpack (art_file crd) of
             Inl e \<Rightarrow> Inl e
           | Inr xs \<Rightarrow> (case unpack (art_file c) of Inl e \<Rightarrow> Inl e | Inr ys \<Rightarrow> Inr (xs @ ys)))
      | Inr False \<Rightarrow>
          (case unpack (art_file c) of
             Inl e \<Rightarrow> Inl e
           | Inr ys \<Rightarrow> (case unpack (art_file crd) of Inl e \<Rightarrow> Inl e | Inr xs \<Rightarrow> Inr (ys @ xs))))"

section \<open>\<open>join_dual_card_layouts\<close>\<close>

text \<open>
  The objects live in a store, addressed by reference; the list \<open>layouts\<close> holds messages
  (the strings that the function skips) and references. Two layout objects are equal
  (\<open>==\<close>, \<open>in\<close>) when they are the same object, since no class defines \<open>__eq__\<close>.
\<close>

datatype entry = Message ustr | Layout nat

type_synonym store = "nat \<Rightarrow> layout_obj"

definition is_split :: "store \<Rightarrow> entry \<Rightarrow> bool" where
  "is_split h n = (case n of Message m \<Rightarrow> False | Layout r \<Rightarrow> card_class (h r) = Split)"

fun split_refs :: "store \<Rightarrow> entry list \<Rightarrow> nat list" where
  "split_refs h [] = []"
| "split_refs h (Message m # ns) = split_refs h ns"
| "split_refs h (Layout r # ns) =
     (if card_class (h r) = Split then r # split_refs h ns else split_refs h ns)"

text \<open>The assignment \<open>card.art_file = files\<close>.\<close>

definition set_art_file :: "store \<Rightarrow> nat \<Rightarrow> path list \<Rightarrow> store" where
  "set_art_file h r files = h(r := (h r)\<lparr>lo_art_file := Some (AList files)\<rparr>)"

text \<open>The inner loop \<open>for c in split\<close>, for the object \<open>crd\<close> of the outer loop.\<close>

fun join_inner :: "env \<Rightarrow> nat \<Rightarrow> nat list \<Rightarrow> store \<Rightarrow> nat list \<Rightarrow> error + store \<times> nat list" where
  "join_inner E crd [] h skip = Inr (h, skip)"
| "join_inner E crd (c # cs) h skip =
     (if c = crd then join_inner E crd cs h skip
      else
        (case split_str E (h c) of
           Inl e \<Rightarrow> Inl e
         | Inr sc \<Rightarrow>
             (case split_str E (h crd) of
                Inl e \<Rightarrow> Inl e
              | Inr scard \<Rightarrow>
                  if sc = scard then
                    (case joined_art_file E (h crd) (h c) of
                       Inl e \<Rightarrow> Inl e
                     | Inr files \<Rightarrow>
                         join_inner E crd cs (set_art_file h crd files) (skip @ [crd, c]))
                  else join_inner E crd cs h skip)))"

text \<open>The outer loop \<open>for card in split\<close>; \<open>split\<close> is the whole list, \<open>rest\<close> what is left.\<close>

fun join_outer ::
  "env \<Rightarrow> nat list \<Rightarrow> nat list \<Rightarrow> store \<Rightarrow> nat list \<Rightarrow> nat list
     \<Rightarrow> error + store \<times> nat list \<times> nat list" where
  "join_outer E split [] h skip add = Inr (h, skip, add)"
| "join_outer E split (crd # rest) h skip add =
     (if crd \<in> set skip then join_outer E split rest h skip add
      else
        (case join_inner E crd split h skip of
           Inl e \<Rightarrow> Inl e
         | Inr (h', skip') \<Rightarrow> join_outer E split rest h' skip' (add @ [crd])))"

definition join_dual_card_layouts :: "env \<Rightarrow> store \<Rightarrow> entry list \<Rightarrow> error + store \<times> entry list" where
  "join_dual_card_layouts E h layouts =
     (let normal = filter (\<lambda>n. \<not> is_split h n) layouts;
          split = split_refs h layouts
      in if split = [] then Inr (h, normal)
         else
           (case join_outer E split split h [] [] of
              Inl e \<Rightarrow> Inl e
            | Inr (h', skip, add) \<Rightarrow> Inr (h', normal @ map Layout add)))"

text \<open>
  Two stores hold the same data when their objects differ at most in the attribute
  \<open>art_file\<close>, the only one that the merge assigns.
\<close>

definition same_data :: "store \<Rightarrow> store \<Rightarrow> bool" where
  "same_data h h' = (\<forall>x. \<exists>v. h' x = (h x)\<lparr>lo_art_file := v\<rparr>)"

text \<open>
  The invariant of the outer loop, over the store \<open>h0\<close> and the list \<open>S\<close> of Split
  objects that the function starts from: the objects kept so far are among \<open>S\<close>; every
  other object of \<open>S\<close> with the display string of a kept one is in \<open>skip\<close>; kept objects
  have different display strings; every skipped object has the display string of a kept one.
\<close>

definition merge_inv :: "env \<Rightarrow> store \<Rightarrow> nat list \<Rightarrow> store \<Rightarrow> nat list \<Rightarrow> nat list \<Rightarrow> bool" where
  "merge_inv E h0 S h skip add =
     (same_data h0 h \<and> set add \<subseteq> set S
      \<and> (\<forall>a\<in>set add. \<forall>c\<in>set S. c \<noteq> a \<longrightarrow>
            (\<exists>ka kc. split_str E (h0 c) = Inr kc \<and> split_str E (h0 a) = Inr ka
                     \<and> (kc = ka \<longrightarrow> c \<in> set skip)))
      \<and> (\<forall>a\<in>set add. \<forall>b\<in>set add. a \<noteq> b \<longrightarrow> split_str E (h0 a) \<noteq> split_str E (h0 b))
      \<and> (\<forall>x\<in>set skip. \<exists>a\<in>set add. split_str E (h0 x) = split_str E (h0 a)))"

text \<open>
  What the merge leaves behind, written without the loops. The files that an object holds
  in \<open>art_file\<close> (none when the attribute is a \<open>Path\<close>, which the merge cannot unpack):
\<close>

definition files_of :: "store \<Rightarrow> nat \<Rightarrow> path list" where
  "files_of h r = (case unpack (art_file (h r)) of Inr fs \<Rightarrow> fs | Inl e \<Rightarrow> [])"

text \<open>
  The files of an object that has taken in those of the others, one after the other: each
  later list goes behind what is there when the order test of the object succeeds, and in
  front of it otherwise.
\<close>

definition absorbed :: "bool \<Rightarrow> path list \<Rightarrow> path list list \<Rightarrow> path list" where
  "absorbed own_first own others =
     (if own_first then own @ concat others else concat (rev others) @ own)"

text \<open>
  The partners of the object \<open>g\<close> in the list \<open>S\<close>: the other objects with its display
  string, in the order (and as often as) \<open>S\<close> lists them.
\<close>

definition partners :: "env \<Rightarrow> store \<Rightarrow> nat list \<Rightarrow> nat \<Rightarrow> nat list" where
  "partners E h S g = filter (\<lambda>c. c \<noteq> g \<and> split_str E (h c) = split_str E (h g)) S"

text \<open>
  The object \<open>g\<close> after the merge over \<open>S\<close>: as it was when it has no partner, and else with
  \<open>art_file\<close> holding its own files and those of all its partners.
\<close>

definition merged_obj :: "env \<Rightarrow> store \<Rightarrow> nat list \<Rightarrow> nat \<Rightarrow> layout_obj" where
  "merged_obj E h S g =
     (if partners E h S g = [] then h g
      else (h g)\<lparr>lo_art_file :=
               Some (AList (absorbed (name_matches_file E (h g) = Inr True) (files_of h g)
                              (map (files_of h) (partners E h S g))))\<rparr>)"

text \<open>
  The second invariant of the outer loop, with \<open>pre\<close> the objects that the loop has been
  through: objects that are not kept are as in \<open>h0\<close>; a kept object is the merged one, is
  in \<open>skip\<close> when it has a partner, and has no object with its display string before it in
  \<open>S\<close>; the partners of the objects in \<open>pre\<close> are skipped.
\<close>

definition full_inv ::
  "env \<Rightarrow> store \<Rightarrow> nat list \<Rightarrow> nat list \<Rightarrow> store \<Rightarrow> nat list \<Rightarrow> nat list \<Rightarrow> bool" where
  "full_inv E h0 S pre h skip add =
     ((\<forall>x. x \<notin> set add \<longrightarrow> h x = h0 x)
      \<and> (\<forall>g\<in>set add. h g = merged_obj E h0 S g)
      \<and> (\<forall>g\<in>set add. partners E h0 S g \<noteq> [] \<longrightarrow> g \<in> set skip)
      \<and> (\<forall>x\<in>set pre. \<forall>c\<in>set S. c \<noteq> x \<and> split_str E (h0 c) = split_str E (h0 x)
             \<longrightarrow> c \<in> set skip)
      \<and> (\<forall>g\<in>set add. \<forall>c\<in>set (takeWhile (\<lambda>x. x \<noteq> g) S).
             split_str E (h0 c) \<noteq> split_str E (h0 g)))"

text \<open>
  An object that the merge can work on: its display string and its order test evaluate, and
  its \<open>art_file\<close> holds a list.
\<close>

definition returns :: "error + 'a \<Rightarrow> bool" where
  "returns r = (case r of Inl e \<Rightarrow> False | Inr v \<Rightarrow> True)"

definition mergeable :: "env \<Rightarrow> store \<Rightarrow> nat \<Rightarrow> bool" where
  "mergeable E h r =
     (returns (split_str E (h r)) \<and> returns (name_matches_file E (h r))
      \<and> returns (unpack (art_file (h r))))"

section \<open>Batches for the merge examples\<close>

definition fire_ice :: scryfall where
  "fire_ice = mk_card LS_Split [] fire_face ice_face"

text \<open>
  Three classifications of the printing Fire // Ice, from the art files Fire, Ice and Ice2,
  as \<open>assign_layout\<close> makes them, and a token next to them.
\<close>

definition fresh_store :: store where
  "fresh_store =
     (\<lambda>r. make_layout LS_Token fire_ice (mk_file (u ''Goblin'')))
       (0 := make_layout LS_Split fire_ice (mk_file (u ''Fire'')),
        1 := make_layout LS_Split fire_ice (mk_file (u ''Ice'')),
        2 := make_layout LS_Split fire_ice (mk_file (u ''Ice2'')))"

text \<open>
  The same objects with the attribute \<open>art_file\<close> already holding a one-element list, the
  representation that the unpacking in the merge expects.
\<close>

definition listed :: "layout_obj \<Rightarrow> layout_obj" where
  "listed obj = obj\<lparr>lo_art_file := Some (AList (art_files obj))\<rparr>"

definition listed_store :: store where
  "listed_store = (\<lambda>r. listed (fresh_store r))"

text \<open>
  The fresh objects again, with the one from the art file Ice belonging to another printing
  (collector number 216).
\<close>

definition other_print_store :: store where
  "other_print_store =
     fresh_store
       (1 := make_layout LS_Split (fire_ice\<lparr>sf_collector_number := Some (u ''216'')\<rparr>)
               (mk_file (u ''Ice'')))"

text \<open>The listed store after the merge of the objects 0 and 1, and after that of 0, 1 and 2.\<close>

definition merged_pair_store :: store where
  "merged_pair_store = set_art_file listed_store 0 [u ''art/Ice.png'', u ''art/Fire.png'']"

definition merged_triple_store :: store where
  "merged_triple_store =
     set_art_file merged_pair_store 0 [u ''art/Ice2.png'', u ''art/Ice.png'', u ''art/Fire.png'']"

section \<open>Verification\<close>

subsection \<open>Splitting and joining\<close>

lemma py_split_nonempty: "py_split sep s \<noteq> []"
  by (induction sep s rule: py_split.induct) (auto split: list.splits)

lemma py_split_single_hd: "hd (py_split [c] s) = takeWhile (\<lambda>x. x \<noteq> c) s"
  by (induction s) (auto split: list.splits simp: py_split_nonempty)

lemma py_join_cons_cons: "py_join sep ((a # w) # ws) = a # py_join sep (w # ws)"
  by (cases ws) auto

lemma py_join_nil_cons: "ws \<noteq> [] \<Longrightarrow> py_join sep ([] # ws) = sep @ py_join sep ws"
  by (cases ws) auto

lemma py_join_split_single: "py_join [c] (py_split [c] s) = s"
  by (induction s) (auto split: list.splits simp: py_split_nonempty py_join_cons_cons py_join_nil_cons)

lemma py_split_single_tl:
  "py_join [c] (tl (py_split [c] s)) = tl (dropWhile (\<lambda>x. x \<noteq> c) s)"
  by (induction s) (auto split: list.splits simp: py_split_nonempty py_join_split_single)

lemma py_split_single_none: "c \<notin> set x \<Longrightarrow> py_split [c] x = [x]"
  by (induction x) auto

lemma py_split_single_app: "c \<notin> set x \<Longrightarrow> py_split [c] (x @ c # r) = x # py_split [c] r"
  by (induction x) auto

lemma py_split_join_single:
  "ls \<noteq> [] \<Longrightarrow> (\<And>l. l \<in> set ls \<Longrightarrow> c \<notin> set l) \<Longrightarrow> py_split [c] (py_join [c] ls) = ls"
proof (induction ls)
  case Nil then show ?case by simp
next
  case (Cons x ys)
  show ?case
  proof (cases ys)
    case Nil then show ?thesis using Cons.prems by (simp add: py_split_single_none)
  next
    case (Cons y zs)
    then show ?thesis using Cons.IH Cons.prems by (simp add: py_split_single_app)
  qed
qed

lemma get_line_0: "get_line t 0 = Inr (takeWhile (\<lambda>x. x \<noteq> NL) t)"
  by (simp add: get_line_def Let_def hd_conv_nth[symmetric] py_split_nonempty py_split_single_hd)

lemma strip_lines_1: "strip_lines t 1 = tl (dropWhile (\<lambda>x. x \<noteq> NL) t)"
  by (simp add: strip_lines_def Let_def drop_Suc py_split_single_tl)

lemma ability_text_loop_eq: "ability_text_loop ls = py_join [NL] (dropWhile chapter_regex ls)"
  by (induction ls) auto

lemma splitlines_acc_no_nl:
  "NL \<notin> set cur \<Longrightarrow> l \<in> set (splitlines_acc cur s) \<Longrightarrow> NL \<notin> set l"
  by (induction cur s rule: splitlines_acc.induct)
     (auto simp: is_linebreak_def NL_def split: if_splits)

lemma splitlines_no_nl: "l \<in> set (splitlines s) \<Longrightarrow> NL \<notin> set l"
  unfolding splitlines_def using splitlines_acc_no_nl[of "[]"] by simp

lemma find_sub_single:
  "find_sub [c] s = (if c \<in> set s then Some (length (takeWhile (\<lambda>x. x \<noteq> c) s)) else None)"
  by (induction s) auto

lemma py_split1_single:
  "c \<in> set s \<Longrightarrow> py_split1 [c] s = [takeWhile (\<lambda>x. x \<noteq> c) s, tl (dropWhile (\<lambda>x. x \<noteq> c) s)]"
  by (simp add: py_split1_def find_sub_single takeWhile_eq_take[symmetric] dropWhile_eq_drop[symmetric] drop_Suc tl_drop[symmetric])

lemma chapter_rest_emdash: "chapter_rest s \<Longrightarrow> EM_DASH \<in> set s"
proof (induction s)
  case Nil then show ?case by simp
next
  case (Cons c cs)
  from Cons.prems have "take 3 (c # cs) = [SP, EM_DASH, SP] \<or> chapter_rest cs" by auto
  then show ?case
  proof
    assume "take 3 (c # cs) = [SP, EM_DASH, SP]"
    then have "EM_DASH \<in> set (take 3 (c # cs))" by simp
    then show ?thesis by (meson in_set_takeD)
  next
    assume "chapter_rest cs" then show ?thesis using Cons.IH by simp
  qed
qed

lemma chapter_regex_emdash: "chapter_regex s \<Longrightarrow> EM_DASH \<in> set s"
  by (cases s) (auto simp: chapter_regex_def dest: chapter_rest_emdash)

lemma py_contains_single: "py_contains [c] s = (c \<in> set s)"
  by (simp add: py_contains_def find_sub_single)

subsection \<open>Saga chapters\<close>

lemma saga_lines_loop_chapters:
  "(\<And>l. l \<in> set ls \<Longrightarrow> EM_DASH \<in> set l) \<Longrightarrow>
   saga_lines_loop i ls acc = Inr (acc @ map spec_chapter ls)"
proof (induction ls arbitrary: i acc)
  case Nil then show ?case by simp
next
  case (Cons l ls)
  have em: "EM_DASH \<in> set l" using Cons.prems by simp
  have rest: "\<And>x. x \<in> set ls \<Longrightarrow> EM_DASH \<in> set x" using Cons.prems by simp
  show ?case
    using em Cons.IH[OF rest]
    by (simp add: py_contains_single py_split1_single spec_chapter_def)
qed

lemmas saga_eval =
  saga_description_def get_line_def strip_lines_def saga_lines_def saga_text_def ability_text_def
  splitlines_def is_linebreak_def u_def NL_def EM_DASH_def SP_def py_count_def chapter_regex_def
  chapter_class_def py_contains_def py_split1_def strip_def lstrip_def rstrip_def py_isspace_def

lemma saga_example_description:
  "saga_description False saga_example = Inr (u ''Read ahead.'')"
  by (simp add: saga_example_def saga_eval)

lemma saga_example_lines:
  "saga_lines saga_example = Inr
     [\<lparr>sl_text = u ''Draw a card.'', sl_icons = [u ''I'']\<rparr>,
      \<lparr>sl_text = u ''Deal 2 damage.'', sl_icons = [u ''II'']\<rparr>,
      \<lparr>sl_text = u ''Gain 3 life.'', sl_icons = [u ''III'']\<rparr>]"
  by (simp add: saga_example_def saga_eval)

lemma saga_example_chapter_lines:
  "filter chapter_regex (splitlines saga_example) \<noteq> []"
  by (simp add: saga_example_def saga_eval)

lemma saga_lines_no_chapter:
  "filter chapter_regex (splitlines t) = [] \<Longrightarrow>
   saga_lines t = Inr [\<lparr>sl_text = [], sl_icons = []\<rparr>]"
  by (simp add: saga_lines_def saga_text_def py_contains_def)

lemma saga_lines_chapters:
  assumes ne: "filter chapter_regex (splitlines t) \<noteq> []"
  shows "saga_lines t = Inr (map spec_chapter (filter chapter_regex (splitlines t)))"
proof -
  let ?ls = "filter chapter_regex (splitlines t)"
  have nonl: "\<And>l. l \<in> set ?ls \<Longrightarrow> NL \<notin> set l" using splitlines_no_nl by auto
  have sp: "py_split [NL] (saga_text t) = ?ls"
    unfolding saga_text_def using py_split_join_single[OF ne nonl] by simp
  have em: "\<And>l. l \<in> set ?ls \<Longrightarrow> EM_DASH \<in> set l" using chapter_regex_emdash by simp
  show ?thesis
    unfolding saga_lines_def sp using saga_lines_loop_chapters[OF em, of ?ls 0 "[]"] by simp
qed

text \<open>
  C7. With reminder removal off, \<open>saga_description\<close> is the first line of the oracle text
  when that line is not a chapter line and is empty otherwise. \<open>saga_lines\<close> never fails
  and holds, in order, one record per chapter line, cut at the first em dash of the line
  into the icon tokens and the ability text; only a text without any chapter line gives a
  single record instead, with empty text and no icons (the empty \<open>saga_text\<close> is one line
  without an em dash at index 0, a standalone heading). On the specification's example the
  description is "Read ahead." and the three chapters carry the icons I, II and III.
\<close>

theorem saga_description_and_lines:
  "saga_description False t =
      Inr (if chapter_regex (takeWhile (\<lambda>c. c \<noteq> NL) t) then []
           else takeWhile (\<lambda>c. c \<noteq> NL) t)
   \<and> saga_lines t =
        Inr (if filter chapter_regex (splitlines t) = [] then [\<lparr>sl_text = [], sl_icons = []\<rparr>]
             else map spec_chapter (filter chapter_regex (splitlines t)))
   \<and> (\<forall>i < length (filter chapter_regex (splitlines t)).
         map_sum id (\<lambda>rs. rs ! i) (saga_lines t)
           = Inr (spec_chapter (filter chapter_regex (splitlines t) ! i)))
   \<and> saga_description False saga_example = Inr (u ''Read ahead.'')
   \<and> map_sum id (map sl_icons) (saga_lines saga_example)
        = Inr [[u ''I''], [u ''II''], [u ''III'']]"
proof -
  let ?ls = "filter chapter_regex (splitlines t)"
  have a: "saga_description False t =
      Inr (if chapter_regex (takeWhile (\<lambda>c. c \<noteq> NL) t) then []
           else takeWhile (\<lambda>c. c \<noteq> NL) t)"
    by (simp add: saga_description_def get_line_0)
  have b: "saga_lines t =
        Inr (if ?ls = [] then [\<lparr>sl_text = [], sl_icons = []\<rparr>] else map spec_chapter ?ls)"
    using saga_lines_no_chapter[of t] saga_lines_chapters[of t] by (cases "?ls = []") simp_all
  have e: "\<forall>i < length ?ls. map_sum id (\<lambda>rs. rs ! i) (saga_lines t) = Inr (spec_chapter (?ls ! i))"
  proof (intro allI impI)
    fix i assume i: "i < length ?ls"
    then have "?ls \<noteq> []" by auto
    then have "saga_lines t = Inr (map spec_chapter ?ls)" by (rule saga_lines_chapters)
    then show "map_sum id (\<lambda>rs. rs ! i) (saga_lines t) = Inr (spec_chapter (?ls ! i))"
      using i by simp
  qed
  have c: "map_sum id (map sl_icons) (saga_lines saga_example)
        = Inr [[u ''I''], [u ''II''], [u ''III'']]"
    by (simp add: saga_example_lines)
  show ?thesis using a b e c saga_example_description by blast
qed

theorem saga_description_and_lines_witness:
  "(1::nat) < length (filter chapter_regex (splitlines saga_example))
   \<and> map_sum id (\<lambda>rs. rs ! 1) (saga_lines saga_example)
       = Inr (spec_chapter (u ''II '' @ [EM_DASH] @ u '' Deal 2 damage.''))
   \<and> saga_lines saga_example
       = Inr (map spec_chapter (filter chapter_regex (splitlines saga_example)))
   \<and> saga_lines (u ''Read ahead.'') = Inr [\<lparr>sl_text = [], sl_icons = []\<rparr>]
   \<and> map_sum id (map sl_text) (saga_lines saga_example)
       = Inr [u ''Draw a card.'', u ''Deal 2 damage.'', u ''Gain 3 life.'']"
proof -
  have ls: "filter chapter_regex (splitlines saga_example)
              = [u ''I '' @ [EM_DASH] @ u '' Draw a card.'',
                 u ''II '' @ [EM_DASH] @ u '' Deal 2 damage.'',
                 u ''III '' @ [EM_DASH] @ u '' Gain 3 life.'']"
    by (simp add: saga_example_def saga_eval)
  have h: "(1::nat) < length (filter chapter_regex (splitlines saga_example))"
    unfolding ls by simp
  have n: "filter chapter_regex (splitlines (u ''Read ahead.'')) = []"
    by (simp add: saga_eval)
  have g1: "map_sum id (\<lambda>rs. rs ! 1) (saga_lines saga_example)
       = Inr (spec_chapter (filter chapter_regex (splitlines saga_example) ! 1))"
    using h saga_description_and_lines [of saga_example] by blast
  have g1': "map_sum id (\<lambda>rs. rs ! 1) (saga_lines saga_example)
       = Inr (spec_chapter (u ''II '' @ [EM_DASH] @ u '' Deal 2 damage.''))"
    using g1 unfolding ls by simp
  have "saga_lines saga_example
       = Inr (if filter chapter_regex (splitlines saga_example) = []
              then [\<lparr>sl_text = [], sl_icons = []\<rparr>]
              else map spec_chapter (filter chapter_regex (splitlines saga_example)))"
    using saga_description_and_lines [of saga_example] by blast
  then have g2: "saga_lines saga_example
       = Inr (map spec_chapter (filter chapter_regex (splitlines saga_example)))"
    using h by (simp add: ls)
  have "saga_lines (u ''Read ahead.'')
       = Inr (if filter chapter_regex (splitlines (u ''Read ahead.'')) = []
              then [\<lparr>sl_text = [], sl_icons = []\<rparr>]
              else map spec_chapter (filter chapter_regex (splitlines (u ''Read ahead.''))))"
    using saga_description_and_lines [of "u ''Read ahead.''"] by blast
  then have g3: "saga_lines (u ''Read ahead.'') = Inr [\<lparr>sl_text = [], sl_icons = []\<rparr>]"
    using n by simp
  have t: "map_sum id (map sl_text) (saga_lines saga_example)
       = Inr [u ''Draw a card.'', u ''Deal 2 damage.'', u ''Gain 3 life.'']"
    by (simp add: saga_example_lines)
  show ?thesis using h g1' g2 g3 t by blast
qed

text \<open>
  What the loop of \<open>ability_text\<close> computes: the lines from the first one, after the
  first line of the oracle text, that does not match the chapter pattern, to the end.
\<close>

lemma ability_text_from_first_plain_line:
  "ability_text t =
     py_join [NL] (dropWhile chapter_regex (splitlines (tl (dropWhile (\<lambda>c. c \<noteq> NL) t))))"
  by (simp add: ability_text_def ability_text_loop_eq strip_lines_1)

text \<open>
  C8 fails on the code. On a Saga whose plain ability line is followed by another chapter
  line, \<open>ability_text\<close> returns both lines: the loop stops at the first line that is not
  a chapter line and returns everything from there, without leaving out the chapter lines
  that follow. The claim, like the docstring (rules text separate from the chapters),
  keeps only the plain line.
\<close>

theorem ability_text_keeps_later_chapters:
  "ability_text saga_late_chapter = u ''Flying'' @ [NL] @ u ''II '' @ [EM_DASH] @ u '' Gain 3 life.''
   \<and> spec_ability_text saga_late_chapter = u ''Flying''
   \<and> ability_text saga_late_chapter \<noteq> spec_ability_text saga_late_chapter"
  by (simp add: saga_late_chapter_def spec_ability_text_def saga_eval)

subsection \<open>Planeswalker abilities\<close>
















subsection \<open>Collector number\<close>

lemmas collector_eval =
  collector_number_def py_int_def py_isdigit_def py_isdecimal_def in_ranges_def decimal_value_def
  decimal_ranges_def other_digit_ranges_def u_def

text \<open>
  C5 fails on the code. A raw collector string that is not empty and holds no digit (here
  the single star U+2605) makes \<open>collector_number\<close> raise \<open>ValueError\<close>: the guard tests
  the raw string, not the digits kept. With a digit present the digits are read (7 for
  "7" followed by the star, 50 for "050"), and an absent string gives 0.
\<close>

theorem collector_number_without_digit_raises:
  "collector_number (Some [9733]) = Inl ValueError
   \<and> collector_number (Some [55, 9733]) = Inr 7
   \<and> collector_number (Some (u ''050'')) = Inr 50
   \<and> collector_number None = Inr 0"
  by (simp add: collector_eval)

subsection \<open>Evaluation of the example cards\<close>

lemma fold_latin1_ascii: "c < 128 \<Longrightarrow> fold_latin1 c = [c]"
  by (simp add: fold_latin1_def)

lemmas obj_eval =
  make_layout_def mk_card_def mk_file_def mk_face_def fire_face_def ice_face_def env0_def
  ascii_upper_def ascii_lower_def normalize_ascii_def fold_latin1_ascii ascii_punctuation_def
  strip_def lstrip_def
  rstrip_def py_isspace_def u_def get_or_def
  cards_def input_name_def lang_def is_alt_lang_def keyword_list_def NL_def

subsection \<open>Watermarks\<close>

lemma find_watermark_svg_none:
  "find_watermark_svg E obj None = None" "find_watermark_svg E obj (Some []) = None"
  by (simp_all add: find_watermark_svg_def)

lemma watermark_svgs_step_spec:
  "watermark_svgs_step E obj (Some (get_or w [])) =
   spec_watermark (cfg_watermark_mode E) (find_watermark_svg E obj) (cfg_watermark_default E) w"
proof -
  have e: "find_watermark_svg E obj (Some (get_or w [])) = find_watermark_svg E obj w"
    by (cases w) (simp_all add: get_or_def find_watermark_svg_def)
  show ?thesis
    unfolding watermark_svgs_step_def e
    by (cases "cfg_watermark_mode E") (auto simp: spec_watermark_def Let_def split: option.splits)
qed

lemma find_mode: "find_watermark_svg (E\<lparr>cfg_watermark_mode := m\<rparr>) obj wm = find_watermark_svg E obj wm"
  by (simp add: find_watermark_svg_def layout_set_def Let_def split: option.splits)

lemma card_mode: "card (E\<lparr>cfg_watermark_mode := m\<rparr>) obj = card E obj"
proof -
  have "card_loop (E\<lparr>cfg_watermark_mode := m\<rparr>) nm fs = card_loop E nm fs" for nm fs
    by (induction fs) (auto split: option.splits)
  then show ?thesis by (simp add: card_def)
qed

lemma raw_mode: "watermark_raw (E\<lparr>cfg_watermark_mode := m\<rparr>) obj = watermark_raw E obj"
  by (simp add: watermark_raw_def card_mode)

lemma watermark_example:
  "watermark_svg env0 ice_mdfc_layout = Inr (Some (u ''wotc.svg''))"
  by (simp add: watermark_svg_def watermark_raw_def card_def find_watermark_svg_def
      ice_mdfc_layout_def obj_eval)

lemma watermark_raw_card:
  "lo_class obj \<noteq> SplitLayout \<Longrightarrow> watermark_raw E obj = map_sum id fc_watermark (card E obj)"
  by (simp add: watermark_raw_def)

lemmas mark_eval =
  set_face_def izzet_face_def orphan_face_def marked_mdfc_layout_def orphan_mdfc_layout_def
  marked_split_layout_def watermark_raw_def card_def layout_set_def

text \<open>
  C4. The watermark of a face follows the four modes: Disabled gives none whatever the raw
  key; Forced resolves the configured default key and does not read the face; Automatic
  resolves the raw key of the face; Fallback resolves the raw key and, when that finds
  nothing, the configured default key. Resolving an absent or empty key gives none;
  the key "set" gives the asset of the set of the first printing, "symbol" that of the
  set of the card, and any other key the asset stored under the lowered key. A Split card
  applies the same policy to each of its faces in turn, and its single watermark is that
  of its first face. With mode Fallback, default "wotc" and a face without watermark, the
  default asset is chosen.
\<close>

theorem watermark_four_modes:
  "(lo_class obj \<noteq> SplitLayout \<longrightarrow>
      watermark_svg (E\<lparr>cfg_watermark_mode := Disabled\<rparr>) obj = Inr None
      \<and> watermark_svg (E\<lparr>cfg_watermark_mode := Forced\<rparr>) obj
          = Inr (find_watermark_svg E obj (Some (cfg_watermark_default E)))
      \<and> watermark_svg (E\<lparr>cfg_watermark_mode := Automatic\<rparr>) obj
          = map_sum id (\<lambda>c. find_watermark_svg E obj (fc_watermark c)) (card E obj)
      \<and> watermark_svg (E\<lparr>cfg_watermark_mode := Fallback\<rparr>) obj
          = map_sum id
              (\<lambda>c. case find_watermark_svg E obj (fc_watermark c) of
                      Some p \<Rightarrow> Some p
                    | None \<Rightarrow> find_watermark_svg E obj (Some (cfg_watermark_default E)))
              (card E obj))
   \<and> find_watermark_svg E obj None = None
   \<and> find_watermark_svg E obj (Some []) = None
   \<and> (k \<noteq> [] \<and> str_lower E k = u ''set'' \<longrightarrow>
        find_watermark_svg E obj (Some k)
          = get_watermark_svg_from_set E
              (get_or (first_print_set E (get_or (sf_oracle_id (lo_scryfall obj)) []))
                 (layout_set E obj)))
   \<and> (k \<noteq> [] \<and> str_lower E k = u ''symbol'' \<longrightarrow>
        find_watermark_svg E obj (Some k) = get_watermark_svg_from_set E (layout_set E obj))
   \<and> (k \<noteq> [] \<and> str_lower E k \<noteq> u ''set'' \<and> str_lower E k \<noteq> u ''symbol'' \<longrightarrow>
        find_watermark_svg E obj (Some k) = get_watermark_svg E (str_lower E k))
   \<and> watermark_svgs E obj
       = map (\<lambda>c. spec_watermark (cfg_watermark_mode E) (find_watermark_svg E obj)
                     (cfg_watermark_default E) (fc_watermark c))
           (cards obj)
   \<and> (lo_class obj = SplitLayout \<and> cards obj \<noteq> [] \<longrightarrow>
        watermark_svg E obj
          = Inr (spec_watermark (cfg_watermark_mode E) (find_watermark_svg E obj)
                   (cfg_watermark_default E) (fc_watermark (hd (cards obj)))))
   \<and> watermark_svg env0 ice_mdfc_layout = Inr (Some (u ''wotc.svg''))"
proof -
  have d: "watermark_svg (E\<lparr>cfg_watermark_mode := Disabled\<rparr>) obj = Inr None"
    if "lo_class obj \<noteq> SplitLayout"
    using that by (simp add: watermark_svg_def)
  have f: "watermark_svg (E\<lparr>cfg_watermark_mode := Forced\<rparr>) obj
       = Inr (find_watermark_svg E obj (Some (cfg_watermark_default E)))"
    if "lo_class obj \<noteq> SplitLayout"
    using that by (simp add: watermark_svg_def find_mode)
  have a: "watermark_svg (E\<lparr>cfg_watermark_mode := Automatic\<rparr>) obj
       = map_sum id (\<lambda>c. find_watermark_svg E obj (fc_watermark c)) (card E obj)"
    if "lo_class obj \<noteq> SplitLayout"
    using that
    by (cases "card E obj")
       (simp_all add: watermark_svg_def find_mode raw_mode watermark_raw_card Let_def)
  have b: "watermark_svg (E\<lparr>cfg_watermark_mode := Fallback\<rparr>) obj
       = map_sum id
              (\<lambda>c. case find_watermark_svg E obj (fc_watermark c) of
                      Some p \<Rightarrow> Some p
                    | None \<Rightarrow> find_watermark_svg E obj (Some (cfg_watermark_default E)))
              (card E obj)"
    if "lo_class obj \<noteq> SplitLayout"
    using that
    by (cases "card E obj")
       (auto simp add: watermark_svg_def find_mode raw_mode watermark_raw_card Let_def
          split: option.splits)
  have r1: "find_watermark_svg E obj (Some k)
          = get_watermark_svg_from_set E
              (get_or (first_print_set E (get_or (sf_oracle_id (lo_scryfall obj)) []))
                 (layout_set E obj))"
    if "k \<noteq> [] \<and> str_lower E k = u ''set''"
    using that by (simp add: find_watermark_svg_def Let_def)
  have r2: "find_watermark_svg E obj (Some k) = get_watermark_svg_from_set E (layout_set E obj)"
    if "k \<noteq> [] \<and> str_lower E k = u ''symbol''"
    using that by (simp add: find_watermark_svg_def Let_def u_def)
  have r3: "find_watermark_svg E obj (Some k) = get_watermark_svg E (str_lower E k)"
    if "k \<noteq> [] \<and> str_lower E k \<noteq> u ''set'' \<and> str_lower E k \<noteq> u ''symbol''"
    using that by (simp add: find_watermark_svg_def Let_def)
  have s: "watermark_svgs E obj
       = map (\<lambda>c. spec_watermark (cfg_watermark_mode E) (find_watermark_svg E obj)
                     (cfg_watermark_default E) (fc_watermark c))
           (cards obj)"
    by (simp add: watermark_svgs_def watermarks_raw_def watermark_svgs_step_spec comp_def)
  have h: "watermark_svg E obj
          = Inr (spec_watermark (cfg_watermark_mode E) (find_watermark_svg E obj)
                   (cfg_watermark_default E) (fc_watermark (hd (cards obj))))"
    if "lo_class obj = SplitLayout \<and> cards obj \<noteq> []"
    using that unfolding watermark_svg_def s by (cases "cards obj") simp_all
  show ?thesis
    using d f a b r1 r2 r3 s h find_watermark_svg_none watermark_example by simp
qed

theorem watermark_four_modes_witness:
  "lo_class marked_mdfc_layout \<noteq> SplitLayout
   \<and> card env0 marked_mdfc_layout = Inr izzet_face
   \<and> u ''Izzet'' \<noteq> [] \<and> str_lower env0 (u ''Izzet'') \<noteq> u ''set''
   \<and> str_lower env0 (u ''Izzet'') \<noteq> u ''symbol''
   \<and> u ''set'' \<noteq> [] \<and> str_lower env0 (u ''set'') = u ''set''
   \<and> watermark_svg (env0\<lparr>cfg_watermark_mode := Disabled\<rparr>) marked_mdfc_layout = Inr None
   \<and> watermark_svg (env0\<lparr>cfg_watermark_mode := Forced\<rparr>) marked_mdfc_layout
       = Inr (Some (u ''wotc.svg''))
   \<and> watermark_svg (env0\<lparr>cfg_watermark_mode := Automatic\<rparr>) marked_mdfc_layout
       = Inr (Some (u ''izzet.svg''))
   \<and> watermark_svg (env0\<lparr>cfg_watermark_mode := Fallback\<rparr>) marked_mdfc_layout
       = Inr (Some (u ''izzet.svg''))
   \<and> watermark_svg (env0\<lparr>cfg_watermark_mode := Automatic\<rparr>) orphan_mdfc_layout = Inr None
   \<and> watermark_svg (env0\<lparr>cfg_watermark_mode := Fallback\<rparr>) orphan_mdfc_layout
       = Inr (Some (u ''wotc.svg''))
   \<and> lo_class marked_split_layout = SplitLayout \<and> cards marked_split_layout \<noteq> []
   \<and> watermark_svgs env0 marked_split_layout = [Some (u ''set/DMR.svg''), Some (u ''izzet.svg'')]
   \<and> watermark_svg env0 marked_split_layout = Inr (Some (u ''set/DMR.svg''))"
proof -
  have c1: "lo_class marked_mdfc_layout \<noteq> SplitLayout"
    by (simp add: mark_eval obj_eval)
  have c1': "lo_class orphan_mdfc_layout \<noteq> SplitLayout"
    by (simp add: mark_eval obj_eval)
  have c2: "lo_class marked_split_layout = SplitLayout \<and> cards marked_split_layout \<noteq> []"
    by (simp add: mark_eval obj_eval)
  have cd: "card env0 marked_mdfc_layout = Inr izzet_face"
    by (simp add: mark_eval obj_eval)
  have cd': "card env0 orphan_mdfc_layout = Inr orphan_face"
    by (simp add: mark_eval obj_eval)
  have kz: "u ''Izzet'' \<noteq> [] \<and> str_lower env0 (u ''Izzet'') \<noteq> u ''set''
            \<and> str_lower env0 (u ''Izzet'') \<noteq> u ''symbol''"
    by (simp add: obj_eval)
  have kf: "u ''Foo'' \<noteq> [] \<and> str_lower env0 (u ''Foo'') \<noteq> u ''set''
            \<and> str_lower env0 (u ''Foo'') \<noteq> u ''symbol''"
    by (simp add: obj_eval)
  have kw: "u ''wotc'' \<noteq> [] \<and> str_lower env0 (u ''wotc'') \<noteq> u ''set''
            \<and> str_lower env0 (u ''wotc'') \<noteq> u ''symbol''"
    by (simp add: obj_eval)
  have ks: "u ''set'' \<noteq> [] \<and> str_lower env0 (u ''set'') = u ''set''"
    by (simp add: obj_eval)
  have df: "cfg_watermark_default env0 = u ''wotc''" and md: "cfg_watermark_mode env0 = Fallback"
    by (simp_all add: env0_def)
  have wz: "fc_watermark izzet_face = Some (u ''Izzet'')"
    and wo: "fc_watermark orphan_face = Some (u ''Foo'')"
    by (simp_all add: mark_eval obj_eval)
  have gz: "get_watermark_svg env0 (str_lower env0 (u ''Izzet'')) = Some (u ''izzet.svg'')"
    and gf: "get_watermark_svg env0 (str_lower env0 (u ''Foo'')) = None"
    and gw: "get_watermark_svg env0 (str_lower env0 (u ''wotc'')) = Some (u ''wotc.svg'')"
    by (simp_all add: obj_eval)
  have fz: "find_watermark_svg env0 obj (Some (u ''Izzet'')) = Some (u ''izzet.svg'')" for obj
    using kz watermark_four_modes [of obj env0 "u ''Izzet''"] gz by simp
  have ff: "find_watermark_svg env0 obj (Some (u ''Foo'')) = None" for obj
    using kf watermark_four_modes [of obj env0 "u ''Foo''"] gf by simp
  have fw: "find_watermark_svg env0 obj (Some (u ''wotc'')) = Some (u ''wotc.svg'')" for obj
    using kw watermark_four_modes [of obj env0 "u ''wotc''"] gw by simp
  have gs: "get_watermark_svg_from_set env0
              (get_or (first_print_set env0 (get_or (sf_oracle_id (lo_scryfall marked_split_layout)) []))
                 (layout_set env0 marked_split_layout)) = Some (u ''set/DMR.svg'')"
    by (simp add: mark_eval obj_eval)
  have fs: "find_watermark_svg env0 marked_split_layout (Some (u ''set'')) = Some (u ''set/DMR.svg'')"
    using ks watermark_four_modes [of marked_split_layout env0 "u ''set''"] gs by simp
  have a: "watermark_svg (env0\<lparr>cfg_watermark_mode := Disabled\<rparr>) marked_mdfc_layout = Inr None
   \<and> watermark_svg (env0\<lparr>cfg_watermark_mode := Forced\<rparr>) marked_mdfc_layout
       = Inr (Some (u ''wotc.svg''))
   \<and> watermark_svg (env0\<lparr>cfg_watermark_mode := Automatic\<rparr>) marked_mdfc_layout
       = Inr (Some (u ''izzet.svg''))
   \<and> watermark_svg (env0\<lparr>cfg_watermark_mode := Fallback\<rparr>) marked_mdfc_layout
       = Inr (Some (u ''izzet.svg''))"
    using c1 watermark_four_modes [of marked_mdfc_layout env0] by (simp add: cd wz df fz fw)
  have b: "watermark_svg (env0\<lparr>cfg_watermark_mode := Automatic\<rparr>) orphan_mdfc_layout = Inr None
   \<and> watermark_svg (env0\<lparr>cfg_watermark_mode := Fallback\<rparr>) orphan_mdfc_layout
       = Inr (Some (u ''wotc.svg''))"
    using c1' watermark_four_modes [of orphan_mdfc_layout env0] by (simp add: cd' wo df ff fw)
  have cs: "map fc_watermark (cards marked_split_layout) = [Some (u ''set''), Some (u ''Izzet'')]"
    by (simp add: mark_eval obj_eval)
  have hd: "fc_watermark (hd (cards marked_split_layout)) = Some (u ''set'')"
    by (simp add: mark_eval obj_eval)
  have "watermark_svgs env0 marked_split_layout
       = map (\<lambda>w. spec_watermark Fallback (find_watermark_svg env0 marked_split_layout)
                     (cfg_watermark_default env0) w)
           (map fc_watermark (cards marked_split_layout))"
    using watermark_four_modes [of marked_split_layout env0] by (simp add: md comp_def)
  then have s: "watermark_svgs env0 marked_split_layout
                  = [Some (u ''set/DMR.svg''), Some (u ''izzet.svg'')]"
    unfolding cs by (simp add: spec_watermark_def fs fz)
  have "watermark_svg env0 marked_split_layout
          = Inr (spec_watermark Fallback (find_watermark_svg env0 marked_split_layout)
                   (cfg_watermark_default env0) (Some (u ''set'')))"
    using c2 watermark_four_modes [of marked_split_layout env0] by (simp add: md hd)
  then have c: "watermark_svg env0 marked_split_layout = Inr (Some (u ''set/DMR.svg''))"
    by (simp add: spec_watermark_def fs)
  show ?thesis using c1 c2 cd kz ks a b s c by blast
qed

subsection \<open>Split texts\<close>

text \<open>
  C6 fails on the code. With the keyword Fuse, each half is cut at its newlines, the last
  piece is dropped and the others are joined by the empty string: a half with two lines
  before the Fuse line loses the line break between them. The claim keeps the breaks.
\<close>

theorem fuse_text_joined_without_breaks:
  "oracle_texts env0 fuse_layout = [u ''Draw a card.Gain 1 life.'', u ''Scry 1.'']
   \<and> map spec_fuse_text (face_texts env0 fuse_layout)
       = [u ''Draw a card.'' @ [NL] @ u ''Gain 1 life.'', u ''Scry 1.'']
   \<and> oracle_texts env0 fuse_layout \<noteq> map spec_fuse_text (face_texts env0 fuse_layout)"
  by (simp add: oracle_texts_def spec_fuse_text_def face_texts_def fuse_layout_def obj_eval)

subsection \<open>The face that fields are read from\<close>

lemma card_loop_find:
  "list_all (\<lambda>fc. fc_name fc \<noteq> None) fs \<Longrightarrow>
   card_loop E nm fs
     = Inr (find (\<lambda>fc. normalize_str E (get_or (fc_name fc) []) = normalize_str E nm) fs)"
  by (induction fs) (auto simp: get_or_def split: option.splits)

lemma card_spec:
  assumes "lo_class obj \<noteq> SplitLayout" "list_all (\<lambda>fc. fc_name fc \<noteq> None) (cards obj)"
  shows "card E obj = Inr (spec_card E obj)"
  using assms card_loop_find[of "cards obj" E "input_name obj"]
  by (simp add: card_def spec_card_def cards_def split: option.splits)

lemma card_ice_mdfc: "card env0 ice_mdfc_layout = Inr ice_face"
  by (simp add: card_def ice_mdfc_layout_def obj_eval)

lemma card_ice_split: "card env0 ice_layout = Inr fire_face"
  by (simp add: card_def ice_layout_def obj_eval)

text \<open>
  C10 (as amended). For a layout object of any class but \<open>SplitLayout\<close> whose faces all
  carry a name, the face object \<open>card\<close>, and with it the raw name, mana cost, oracle text
  (in the Planeswalker classes with the minus sign replaced by a hyphen), type line and
  watermark key, is the first face whose normalized name equals the normalized name of the
  art file, and the top-level object when no face matches or the record has no faces. A
  \<open>SplitLayout\<close> object takes the first entry of \<open>card_faces\<close> whatever the art file is
  called.
\<close>

theorem card_is_matching_face_unless_split:
  "(lo_class obj \<noteq> SplitLayout \<and> list_all (\<lambda>fc. fc_name fc \<noteq> None) (cards obj) \<longrightarrow>
      card E obj = Inr (spec_card E obj)
      \<and> name_raw E obj = Inr (get_or (fc_name (spec_card E obj)) [])
      \<and> mana_cost E obj = Inr (get_or (fc_mana_cost (spec_card E obj)) [])
      \<and> oracle_text_raw E obj
          = Inr (if is_planeswalker_class (lo_class obj)
                 then fix_minus (get_or (fc_oracle_text (spec_card E obj)) [])
                 else get_or (fc_oracle_text (spec_card E obj)) [])
      \<and> type_line_raw E obj = Inr (get_or (fc_type_line (spec_card E obj)) [])
      \<and> watermark_raw E obj = Inr (fc_watermark (spec_card E obj)))
   \<and> (sf_card_faces (lo_scryfall obj) = None \<longrightarrow>
        spec_card E obj = face.truncate (lo_scryfall obj))
   \<and> (lo_class obj = SplitLayout \<and> cards obj \<noteq> [] \<longrightarrow> card E obj = Inr (hd (cards obj)))"
proof -
  have a: "card E obj = Inr (spec_card E obj)
      \<and> name_raw E obj = Inr (get_or (fc_name (spec_card E obj)) [])
      \<and> mana_cost E obj = Inr (get_or (fc_mana_cost (spec_card E obj)) [])
      \<and> oracle_text_raw E obj
          = Inr (if is_planeswalker_class (lo_class obj)
                 then fix_minus (get_or (fc_oracle_text (spec_card E obj)) [])
                 else get_or (fc_oracle_text (spec_card E obj)) [])
      \<and> type_line_raw E obj = Inr (get_or (fc_type_line (spec_card E obj)) [])
      \<and> watermark_raw E obj = Inr (fc_watermark (spec_card E obj))"
    if h: "lo_class obj \<noteq> SplitLayout \<and> list_all (\<lambda>fc. fc_name fc \<noteq> None) (cards obj)"
  proof -
    have c: "card E obj = Inr (spec_card E obj)" using h card_spec by blast
    show ?thesis
      using h by (simp add: c name_raw_def mana_cost_def oracle_text_raw_def type_line_raw_def
          watermark_raw_def)
  qed
  have b: "spec_card E obj = face.truncate (lo_scryfall obj)"
    if "sf_card_faces (lo_scryfall obj) = None"
    using that by (simp add: spec_card_def get_or_def)
  have s: "card E obj = Inr (hd (cards obj))" if "lo_class obj = SplitLayout \<and> cards obj \<noteq> []"
    using that by (cases "cards obj") (simp_all add: card_def)
  show ?thesis using a b s by blast
qed

theorem card_is_matching_face_unless_split_witness:
  "lo_class ice_mdfc_layout \<noteq> SplitLayout
   \<and> list_all (\<lambda>fc. fc_name fc \<noteq> None) (cards ice_mdfc_layout)
   \<and> card env0 ice_mdfc_layout = Inr ice_face
   \<and> mana_cost env0 ice_mdfc_layout = Inr (u ''{1}{U}'')
   \<and> lo_class walker_layout \<noteq> SplitLayout
   \<and> list_all (\<lambda>fc. fc_name fc \<noteq> None) (cards walker_layout)
   \<and> oracle_text_raw env0 walker_layout = Inr (u ''-2: Draw a card.'')
   \<and> sf_card_faces (lo_scryfall single_layout) = None
   \<and> spec_card env0 single_layout = face.truncate (lo_scryfall single_layout)
   \<and> lo_class ice_layout = SplitLayout \<and> cards ice_layout \<noteq> []
   \<and> card env0 ice_layout = Inr fire_face"
proof -
  have h1: "lo_class ice_mdfc_layout \<noteq> SplitLayout
            \<and> list_all (\<lambda>fc. fc_name fc \<noteq> None) (cards ice_mdfc_layout)"
    by (simp add: ice_mdfc_layout_def obj_eval)
  have h2: "sf_card_faces (lo_scryfall single_layout) = None"
    by (simp add: single_layout_def obj_eval)
  have h3: "lo_class ice_layout = SplitLayout \<and> cards ice_layout \<noteq> []"
    by (simp add: ice_layout_def obj_eval)
  have h4: "lo_class walker_layout \<noteq> SplitLayout
            \<and> list_all (\<lambda>fc. fc_name fc \<noteq> None) (cards walker_layout)"
    by (simp add: walker_layout_def obj_eval)
  have sc: "spec_card env0 ice_mdfc_layout = ice_face"
    by (simp add: spec_card_def ice_mdfc_layout_def obj_eval)
  have hd: "hd (cards ice_layout) = fire_face"
    by (simp add: ice_layout_def obj_eval)
  have r1: "card env0 ice_mdfc_layout = Inr ice_face
            \<and> mana_cost env0 ice_mdfc_layout = Inr (u ''{1}{U}'')"
    using h1 card_is_matching_face_unless_split [of ice_mdfc_layout env0]
    by (simp add: sc) (simp add: obj_eval)
  have r2: "spec_card env0 single_layout = face.truncate (lo_scryfall single_layout)"
    using h2 card_is_matching_face_unless_split [of single_layout env0] by blast
  have r3: "card env0 ice_layout = Inr fire_face"
    using h3 card_is_matching_face_unless_split [of ice_layout env0] by (simp add: hd)
  have pw: "is_planeswalker_class (lo_class walker_layout)"
    by (simp add: walker_layout_def is_planeswalker_class_def obj_eval)
  have tx: "fix_minus (get_or (fc_oracle_text (spec_card env0 walker_layout)) [])
              = u ''-2: Draw a card.''"
    by (simp add: spec_card_def walker_layout_def fix_minus_def face.truncate_def obj_eval)
  have "oracle_text_raw env0 walker_layout
          = Inr (if is_planeswalker_class (lo_class walker_layout)
                 then fix_minus (get_or (fc_oracle_text (spec_card env0 walker_layout)) [])
                 else get_or (fc_oracle_text (spec_card env0 walker_layout)) [])"
    using h4 card_is_matching_face_unless_split [of walker_layout env0] by blast
  then have r4: "oracle_text_raw env0 walker_layout = Inr (u ''-2: Draw a card.'')"
    using pw tx by simp
  show ?thesis using h1 h2 h3 h4 r1 r2 r3 r4 by blast
qed

text \<open>
  C10 as stated fails on a Split card: classified from the art file of its second face
  (Ice), the object still reads its fields from the first face (Fire), while the first
  face whose normalized name equals that of the art file is Ice.
\<close>

theorem split_card_ignores_art_file_name:
  "lo_class ice_layout = layout_map LS_Split
   \<and> sf_card_faces (lo_scryfall ice_layout) = Some [fire_face, ice_face]
   \<and> spec_card env0 ice_layout = ice_face
   \<and> card env0 ice_layout = Inr fire_face
   \<and> mana_cost env0 ice_layout = Inr (u ''{1}{R}'')
   \<and> card env0 ice_layout \<noteq> Inr (spec_card env0 ice_layout)"
  by (simp add: card_def mana_cost_def spec_card_def ice_layout_def obj_eval)

subsection \<open>The merge loops\<close>

lemma art_update_data:
  "lo_scryfall (obj\<lparr>lo_art_file := v\<rparr>) = lo_scryfall obj"
  "lo_class (obj\<lparr>lo_art_file := v\<rparr>) = lo_class obj"
  "lo_file (obj\<lparr>lo_art_file := v\<rparr>) = lo_file obj"
  by simp_all

lemma split_str_art: "split_str E (obj\<lparr>lo_art_file := v\<rparr>) = split_str E obj"
  unfolding split_str_def display_name_def names_def cards_def is_alt_lang_def lang_def
    layout_set_def art_update_data ..

lemma card_class_art: "card_class (obj\<lparr>lo_art_file := v\<rparr>) = card_class obj"
  by (simp add: card_class_def is_front_def)

lemma same_data_refl: "same_data h h"
  unfolding same_data_def by (metis layout_obj.update_convs(4) layout_obj.surjective layout_obj.select_convs(4))

lemma same_data_trans: "same_data h h1 \<Longrightarrow> same_data h1 h2 \<Longrightarrow> same_data h h2"
  unfolding same_data_def
proof
  fix x
  assume a: "\<forall>x. \<exists>v. h1 x = (h x)\<lparr>lo_art_file := v\<rparr>" and b: "\<forall>x. \<exists>v. h2 x = (h1 x)\<lparr>lo_art_file := v\<rparr>"
  from a obtain v where v: "h1 x = (h x)\<lparr>lo_art_file := v\<rparr>" by blast
  from b obtain w where w: "h2 x = (h1 x)\<lparr>lo_art_file := w\<rparr>" by blast
  have "h2 x = (h x)\<lparr>lo_art_file := w\<rparr>" unfolding w v by simp
  then show "\<exists>v. h2 x = (h x)\<lparr>lo_art_file := v\<rparr>" by blast
qed

lemma same_data_set_art: "same_data h (set_art_file h r fs)"
  unfolding same_data_def set_art_file_def
proof
  fix x
  show "\<exists>v. (h(r := (h r)\<lparr>lo_art_file := Some (AList fs)\<rparr>)) x = (h x)\<lparr>lo_art_file := v\<rparr>"
  proof (cases "x = r")
    case True then show ?thesis by auto
  next
    case False
    have "h x = (h x)\<lparr>lo_art_file := lo_art_file (h x)\<rparr>" by simp
    then show ?thesis using False by (metis fun_upd_other)
  qed
qed

lemma same_data_key: "same_data h h' \<Longrightarrow> split_str E (h' x) = split_str E (h x)"
  unfolding same_data_def by (metis split_str_art)

lemma same_data_class: "same_data h h' \<Longrightarrow> card_class (h' x) = card_class (h x)"
  unfolding same_data_def by (metis card_class_art)

lemma set_art_file_key: "split_str E (set_art_file h r fs x) = split_str E (h x)"
  using same_data_key[OF same_data_set_art] by simp

lemma set_art_file_other: "x \<noteq> r \<Longrightarrow> set_art_file h r fs x = h x"
  by (simp add: set_art_file_def)

lemma join_inner_no_match:
  "(\<And>c. c \<in> set cs \<Longrightarrow> c \<noteq> crd \<Longrightarrow>
        \<exists>a b. split_str E (h c) = Inr a \<and> split_str E (h crd) = Inr b \<and> a \<noteq> b)
   \<Longrightarrow> join_inner E crd cs h skip = Inr (h, skip)"
proof (induction cs)
  case Nil then show ?case by simp
next
  case (Cons c cs)
  have ih: "join_inner E crd cs h skip = Inr (h, skip)"
    using Cons.IH Cons.prems by simp
  show ?case
  proof (cases "c = crd")
    case True then show ?thesis using ih by simp
  next
    case False
    then obtain a b where "split_str E (h c) = Inr a" "split_str E (h crd) = Inr b" "a \<noteq> b"
      using Cons.prems[of c] by auto
    then show ?thesis using False ih by simp
  qed
qed

lemma join_inner_success:
  "join_inner E crd cs h skip = Inr (h', skip') \<Longrightarrow>
     same_data h h' \<and> (\<forall>x. x \<noteq> crd \<longrightarrow> h' x = h x) \<and> set skip \<subseteq> set skip'
     \<and> (\<forall>c\<in>set cs. c \<noteq> crd \<longrightarrow>
           (\<exists>a b. split_str E (h c) = Inr a \<and> split_str E (h crd) = Inr b
                  \<and> (a = b \<longrightarrow> c \<in> set skip')))
     \<and> (\<forall>x\<in>set skip'. x \<in> set skip \<or>
           (\<exists>c\<in>set cs. c \<noteq> crd \<and> split_str E (h c) = split_str E (h crd) \<and> (x = crd \<or> x = c)))"
proof (induction cs arbitrary: h skip)
  case Nil
  then show ?case by (simp add: same_data_refl)
next
  case (Cons c cs)
  show ?case
  proof (cases "c = crd")
    case True
    then have "join_inner E crd cs h skip = Inr (h', skip')" using Cons.prems by simp
    from Cons.IH[OF this] show ?thesis using True by auto
  next
    case False
    obtain a where a: "split_str E (h c) = Inr a"
      using Cons.prems False by (cases "split_str E (h c)") auto
    obtain b where b: "split_str E (h crd) = Inr b"
      using Cons.prems False a by (cases "split_str E (h crd)") auto
    show ?thesis
    proof (cases "a = b")
      case ne: False
      then have "join_inner E crd cs h skip = Inr (h', skip')"
        using Cons.prems False a b by simp
      from Cons.IH[OF this] show ?thesis using False a b ne by auto
    next
      case eq: True
      obtain fs where fs: "joined_art_file E (h crd) (h c) = Inr fs"
        using Cons.prems False a b eq by (cases "joined_art_file E (h crd) (h c)") auto
      let ?h1 = "set_art_file h crd fs"
      have run: "join_inner E crd cs ?h1 (skip @ [crd, c]) = Inr (h', skip')"
        using Cons.prems False a b eq fs by simp
      note ih = Cons.IH[OF run]
      have k: "\<And>x. split_str E (?h1 x) = split_str E (h x)" by (rule set_art_file_key)
      have 1: "same_data h h'"
        using ih same_data_trans[OF same_data_set_art] by blast
      have 2: "\<forall>x. x \<noteq> crd \<longrightarrow> h' x = h x"
        using ih set_art_file_other by metis
      have 3: "set skip \<subseteq> set skip'" and cin: "c \<in> set skip'" "crd \<in> set skip'"
        using ih by auto
      have 4: "\<forall>c'\<in>set (c # cs). c' \<noteq> crd \<longrightarrow>
           (\<exists>a b. split_str E (h c') = Inr a \<and> split_str E (h crd) = Inr b
                  \<and> (a = b \<longrightarrow> c' \<in> set skip'))"
      proof (intro ballI impI)
        fix c' assume m: "c' \<in> set (c # cs)" and n: "c' \<noteq> crd"
        show "\<exists>a b. split_str E (h c') = Inr a \<and> split_str E (h crd) = Inr b
                  \<and> (a = b \<longrightarrow> c' \<in> set skip')"
        proof (cases "c' = c")
          case True then show ?thesis using a b cin by auto
        next
          case False
          then have "c' \<in> set cs" using m by simp
          then show ?thesis using ih n unfolding k by blast
        qed
      qed
      have 5: "\<forall>x\<in>set skip'. x \<in> set skip \<or>
           (\<exists>c'\<in>set (c # cs). c' \<noteq> crd \<and> split_str E (h c') = split_str E (h crd)
               \<and> (x = crd \<or> x = c'))"
      proof
        fix x assume "x \<in> set skip'"
        then have "x \<in> set (skip @ [crd, c]) \<or>
           (\<exists>c'\<in>set cs. c' \<noteq> crd \<and> split_str E (h c') = split_str E (h crd)
               \<and> (x = crd \<or> x = c'))"
          using ih unfolding k by blast
        then show "x \<in> set skip \<or>
           (\<exists>c'\<in>set (c # cs). c' \<noteq> crd \<and> split_str E (h c') = split_str E (h crd)
               \<and> (x = crd \<or> x = c'))"
          using False a b eq by auto
      qed
      show ?thesis using 1 2 3 4 5 by blast
    qed
  qed
qed

lemma join_inner_same_data:
  "join_inner E crd cs h skip = Inr (h', skip') \<Longrightarrow> same_data h h'"
  using join_inner_success by blast

lemma join_inner_other:
  "join_inner E crd cs h skip = Inr (h', skip') \<Longrightarrow> x \<noteq> crd \<Longrightarrow> h' x = h x"
  using join_inner_success by blast

lemma join_inner_skip_mono:
  "join_inner E crd cs h skip = Inr (h', skip') \<Longrightarrow> set skip \<subseteq> set skip'"
  using join_inner_success by blast

lemma join_inner_keys:
  "join_inner E crd cs h skip = Inr (h', skip') \<Longrightarrow> c \<in> set cs \<Longrightarrow> c \<noteq> crd \<Longrightarrow>
   \<exists>a b. split_str E (h c) = Inr a \<and> split_str E (h crd) = Inr b \<and> (a = b \<longrightarrow> c \<in> set skip')"
  using join_inner_success[of E crd cs h skip h' skip'] by blast

lemma join_inner_skip_new:
  "join_inner E crd cs h skip = Inr (h', skip') \<Longrightarrow> x \<in> set skip' \<Longrightarrow> x \<notin> set skip \<Longrightarrow>
   \<exists>c\<in>set cs. c \<noteq> crd \<and> split_str E (h c) = split_str E (h crd) \<and> (x = crd \<or> x = c)"
  using join_inner_success[of E crd cs h skip h' skip'] by blast

lemma join_outer_no_match:
  assumes "\<And>a c. a \<in> set S \<Longrightarrow> c \<in> set S \<Longrightarrow> c \<noteq> a \<Longrightarrow>
             \<exists>ka kc. split_str E (h c) = Inr kc \<and> split_str E (h a) = Inr ka \<and> kc \<noteq> ka"
  shows "set rest \<subseteq> set S \<Longrightarrow> join_outer E S rest h [] add = Inr (h, [], add @ rest)"
proof (induction rest arbitrary: add)
  case Nil then show ?case by simp
next
  case (Cons crd rest)
  have m: "crd \<in> set S" using Cons.prems by simp
  have "join_inner E crd S h [] = Inr (h, [])"
  proof (rule join_inner_no_match)
    fix c assume "c \<in> set S" "c \<noteq> crd"
    then show "\<exists>a b. split_str E (h c) = Inr a \<and> split_str E (h crd) = Inr b \<and> a \<noteq> b"
      using assms[OF m, of c] by blast
  qed
  then show ?case using Cons.IH[of "add @ [crd]"] Cons.prems by simp
qed

lemma merge_inv_step:
  assumes inv: "merge_inv E h0 S h skip add"
    and m: "crd \<in> set S" and ns: "crd \<notin> set skip"
    and inner: "join_inner E crd S h skip = Inr (h1, skip1)"
  shows "merge_inv E h0 S h1 skip1 (add @ [crd])"
proof -
  have sd: "same_data h0 h" using inv by (simp add: merge_inv_def)
  have k: "\<And>x. split_str E (h x) = split_str E (h0 x)" using same_data_key[OF sd] by simp
  have f4: "\<forall>c\<in>set S. c \<noteq> crd \<longrightarrow>
           (\<exists>a b. split_str E (h0 c) = Inr a \<and> split_str E (h0 crd) = Inr b
                  \<and> (a = b \<longrightarrow> c \<in> set skip1))"
    using join_inner_keys[OF inner] unfolding k by blast
  have f5: "\<forall>x\<in>set skip1. x \<in> set skip \<or>
           (\<exists>c\<in>set S. c \<noteq> crd \<and> split_str E (h0 c) = split_str E (h0 crd) \<and> (x = crd \<or> x = c))"
    using join_inner_skip_new[OF inner] unfolding k by blast
  have sub: "set skip \<subseteq> set skip1" by (rule join_inner_skip_mono[OF inner])
  have 1: "same_data h0 h1" using join_inner_same_data[OF inner] sd same_data_trans by blast
  have 2: "set (add @ [crd]) \<subseteq> set S" using inv m by (simp add: merge_inv_def)
  have old3: "\<forall>a\<in>set add. \<forall>c\<in>set S. c \<noteq> a \<longrightarrow>
            (\<exists>ka kc. split_str E (h0 c) = Inr kc \<and> split_str E (h0 a) = Inr ka
                     \<and> (kc = ka \<longrightarrow> c \<in> set skip))"
    using inv by (simp add: merge_inv_def)
  have 3: "\<forall>a\<in>set (add @ [crd]). \<forall>c\<in>set S. c \<noteq> a \<longrightarrow>
            (\<exists>ka kc. split_str E (h0 c) = Inr kc \<and> split_str E (h0 a) = Inr ka
                     \<and> (kc = ka \<longrightarrow> c \<in> set skip1))"
  proof (intro ballI impI)
    fix a c assume a: "a \<in> set (add @ [crd])" and c: "c \<in> set S" and n: "c \<noteq> a"
    show "\<exists>ka kc. split_str E (h0 c) = Inr kc \<and> split_str E (h0 a) = Inr ka
                     \<and> (kc = ka \<longrightarrow> c \<in> set skip1)"
    proof (cases "a \<in> set add")
      case True
      then show ?thesis using old3 c n sub by blast
    next
      case False
      then have "a = crd" using a by simp
      then show ?thesis using f4 c n by blast
    qed
  qed
  have diff: "split_str E (h0 a) \<noteq> split_str E (h0 crd)" if "a \<in> set add" "a \<noteq> crd" for a
  proof -
    have "\<exists>ka kc. split_str E (h0 crd) = Inr kc \<and> split_str E (h0 a) = Inr ka
                     \<and> (kc = ka \<longrightarrow> crd \<in> set skip)"
      using old3[rule_format, of a crd] that m by simp
    then obtain ka kc where "split_str E (h0 crd) = Inr kc" "split_str E (h0 a) = Inr ka"
        "kc = ka \<longrightarrow> crd \<in> set skip"
      by blast
    then show ?thesis using ns by auto
  qed
  have old4: "\<forall>a\<in>set add. \<forall>b\<in>set add. a \<noteq> b \<longrightarrow> split_str E (h0 a) \<noteq> split_str E (h0 b)"
    using inv by (simp add: merge_inv_def)
  have 4: "\<forall>a\<in>set (add @ [crd]). \<forall>b\<in>set (add @ [crd]). a \<noteq> b \<longrightarrow>
             split_str E (h0 a) \<noteq> split_str E (h0 b)"
  proof (intro ballI impI)
    fix a b assume a: "a \<in> set (add @ [crd])" and b: "b \<in> set (add @ [crd])" and n: "a \<noteq> b"
    consider "a \<in> set add" "b \<in> set add" | "a \<in> set add" "b = crd" "a \<noteq> crd"
      | "a = crd" "b \<in> set add" "b \<noteq> crd"
      using a b n by auto
    then show "split_str E (h0 a) \<noteq> split_str E (h0 b)"
    proof cases
      case 1 then show ?thesis using old4[rule_format, of a b] n by simp
    next
      case 2 then show ?thesis using diff[of a] by simp
    next
      case 3 then show ?thesis using diff[of b] by auto
    qed
  qed
  have old5: "\<forall>x\<in>set skip. \<exists>a\<in>set add. split_str E (h0 x) = split_str E (h0 a)"
    using inv by (simp add: merge_inv_def)
  have 5: "\<forall>x\<in>set skip1. \<exists>a\<in>set (add @ [crd]). split_str E (h0 x) = split_str E (h0 a)"
  proof
    fix x assume "x \<in> set skip1"
    then consider "x \<in> set skip"
      | c where "c \<in> set S" "c \<noteq> crd" "split_str E (h0 c) = split_str E (h0 crd)" "x = crd \<or> x = c"
      using f5[rule_format, of x] by blast
    then show "\<exists>a\<in>set (add @ [crd]). split_str E (h0 x) = split_str E (h0 a)"
    proof cases
      case 1
      then obtain a where "a \<in> set add" "split_str E (h0 x) = split_str E (h0 a)"
        using old5[rule_format, of x] by blast
      then show ?thesis by auto
    next
      case 2
      then have "split_str E (h0 x) = split_str E (h0 crd)" by auto
      then show ?thesis by auto
    qed
  qed
  show ?thesis unfolding merge_inv_def by (intro conjI 1 2 3 4 5)
qed

lemma join_outer_inv:
  "join_outer E S rest h skip add = Inr (h', skip', add') \<Longrightarrow> set rest \<subseteq> set S \<Longrightarrow>
   merge_inv E h0 S h skip add \<Longrightarrow>
   merge_inv E h0 S h' skip' add' \<and> set skip \<subseteq> set skip' \<and> set add \<subseteq> set add'
   \<and> (\<forall>r\<in>set rest. r \<in> set skip' \<or> r \<in> set add')"
proof (induction rest arbitrary: h skip add)
  case Nil then show ?case by simp
next
  case (Cons crd rest)
  have m: "crd \<in> set S" and sub: "set rest \<subseteq> set S" using Cons.prems by auto
  show ?case
  proof (cases "crd \<in> set skip")
    case True
    then have "join_outer E S rest h skip add = Inr (h', skip', add')" using Cons.prems by simp
    from Cons.IH[OF this sub Cons.prems(3)] show ?thesis using True by auto
  next
    case False
    obtain h1 skip1 where inner: "join_inner E crd S h skip = Inr (h1, skip1)"
      using Cons.prems(1) False by (cases "join_inner E crd S h skip") auto
    have run: "join_outer E S rest h1 skip1 (add @ [crd]) = Inr (h', skip', add')"
      using Cons.prems(1) False inner by simp
    have inv1: "merge_inv E h0 S h1 skip1 (add @ [crd])"
      by (rule merge_inv_step[OF Cons.prems(3) m False inner])
    have s1: "set skip \<subseteq> set skip1" by (rule join_inner_skip_mono[OF inner])
    from Cons.IH[OF run sub inv1] show ?thesis using s1 by auto
  qed
qed

lemma join_outer_lone:
  "join_outer E S rest h skip add = Inr (h', skip', add') \<Longrightarrow> set rest \<subseteq> set S \<Longrightarrow>
   same_data h0 h \<Longrightarrow> r \<in> set S \<Longrightarrow> r \<notin> set skip \<Longrightarrow>
   (\<And>c. c \<in> set S \<Longrightarrow> c \<noteq> r \<Longrightarrow> split_str E (h0 c) \<noteq> split_str E (h0 r)) \<Longrightarrow>
   r \<notin> set skip' \<and> h' r = h r \<and> (r \<in> set rest \<or> r \<in> set add \<longrightarrow> r \<in> set add')"
proof (induction rest arbitrary: h skip add)
  case Nil then show ?case by simp
next
  case (Cons crd rest)
  have m: "crd \<in> set S" and sub: "set rest \<subseteq> set S" using Cons.prems by auto
  have k: "\<And>x. split_str E (h x) = split_str E (h0 x)" using same_data_key[OF Cons.prems(3)] by simp
  show ?case
  proof (cases "crd \<in> set skip")
    case True
    then have run: "join_outer E S rest h skip add = Inr (h', skip', add')" using Cons.prems by simp
    have "crd \<noteq> r" using True Cons.prems(5) by auto
    then show ?thesis
      using Cons.IH[OF run sub Cons.prems(3) Cons.prems(4) Cons.prems(5) Cons.prems(6)] by auto
  next
    case False
    obtain h1 skip1 where inner: "join_inner E crd S h skip = Inr (h1, skip1)"
      using Cons.prems(1) False by (cases "join_inner E crd S h skip") auto
    have run: "join_outer E S rest h1 skip1 (add @ [crd]) = Inr (h', skip', add')"
      using Cons.prems(1) False inner by simp
    have sd1: "same_data h0 h1"
      using join_inner_same_data[OF inner] Cons.prems(3) same_data_trans by blast
    have ns1: "r \<notin> set skip1"
    proof
      assume "r \<in> set skip1"
      then obtain c where c: "c \<in> set S" "c \<noteq> crd" "split_str E (h0 c) = split_str E (h0 crd)"
          "r = crd \<or> r = c"
        using join_inner_skip_new[OF inner, of r] Cons.prems(5) unfolding k by blast
      show False
      proof (cases "r = crd")
        case True then show ?thesis using c Cons.prems(6)[of c] by auto
      next
        case False
        then have "r = c" using c by simp
        then show ?thesis using c m Cons.prems(6)[of crd] by auto
      qed
    qed
    have same: "h1 r = h r"
    proof (cases "crd = r")
      case False then show ?thesis using join_inner_other[OF inner, of r] by simp
    next
      case True
      have "join_inner E crd S h skip = Inr (h, skip)"
      proof (rule join_inner_no_match)
        fix c assume c: "c \<in> set S" "c \<noteq> crd"
        then obtain a b where "split_str E (h c) = Inr a" "split_str E (h crd) = Inr b"
          using join_inner_keys[OF inner, of c] by blast
        moreover have "split_str E (h c) \<noteq> split_str E (h crd)"
          unfolding k using Cons.prems(6)[of c] c True by simp
        ultimately show "\<exists>a b. split_str E (h c) = Inr a \<and> split_str E (h crd) = Inr b \<and> a \<noteq> b"
          by auto
      qed
      then show ?thesis using inner by simp
    qed
    from Cons.IH[OF run sub sd1 Cons.prems(4) ns1 Cons.prems(6)]
    show ?thesis using same by auto
  qed
qed

lemmas merge_eval =
  join_dual_card_layouts_def is_split_def card_class_def split_str_def display_name_def names_def
  split_name_def name_matches_file_def joined_art_file_def unpack_def art_file_def art_files_def
  layout_set_def collector_number_def py_int_def py_isdigit_def py_isdecimal_def in_ranges_def
  decimal_value_def decimal_ranges_def other_digit_ranges_def set_art_file_def
  fresh_store_def listed_store_def listed_def fire_ice_def

text \<open>
  C1 fails on the code. Two Split objects of the same printing, classified from the art
  files of face 0 and face 1, make the merge raise \<open>TypeError\<close>: the attribute \<open>art_file\<close>
  of a Split layout is one \<open>Path\<close>, which the list display cannot unpack. Where the
  attribute already holds a list, the two lists are joined, but the file of face 1 comes
  first: the order test compares the first character of the name of face 0 with the name of
  the art file.
\<close>

theorem join_of_two_split_layouts_raises:
  "split_str env0 (fresh_store 0) = Inr (u ''Fire // Ice [DMR] {215}'')
   \<and> split_str env0 (fresh_store 1) = split_str env0 (fresh_store 0)
   \<and> join_dual_card_layouts env0 fresh_store [Layout 0, Layout 1] = Inl TypeError
   \<and> join_dual_card_layouts env0 listed_store [Layout 0, Layout 1]
       = Inr (set_art_file listed_store 0 [u ''art/Ice.png'', u ''art/Fire.png''], [Layout 0])"
  by (simp add: merge_eval obj_eval)

subsection \<open>The merge as a whole\<close>

lemma set_split_refs:
  "set (split_refs h L) = {r. Layout r \<in> set L \<and> card_class (h r) = Split}"
  by (induction h L rule: split_refs.induct) auto

lemma split_refs_append: "split_refs h (xs @ ys) = split_refs h xs @ split_refs h ys"
  by (induction h xs rule: split_refs.induct) auto

lemma split_refs_normal: "split_refs h (filter (\<lambda>n. \<not> is_split h n) L) = []"
  by (induction h L rule: split_refs.induct) (auto simp: is_split_def)

lemma split_refs_layouts:
  "\<forall>r\<in>set rs. card_class (h r) = Split \<Longrightarrow> split_refs h (map Layout rs) = rs"
  by (induction rs) auto

lemma normal_layouts:
  "\<forall>r\<in>set rs. card_class (h r) = Split \<Longrightarrow>
   filter (\<lambda>n. \<not> is_split h n) (map Layout rs) = []"
  by (induction rs) (auto simp: is_split_def)

lemma same_data_is_split: "same_data h h' \<Longrightarrow> is_split h' n = is_split h n"
  by (cases n) (simp_all add: is_split_def same_data_class)

lemma same_data_split_refs: "same_data h h' \<Longrightarrow> split_refs h' L = split_refs h L"
  by (induction h L rule: split_refs.induct) (simp_all add: same_data_class)

lemma merge_inv_start: "merge_inv E h S h [] []"
  by (simp add: merge_inv_def same_data_refl)

lemma join_success:
  assumes "join_dual_card_layouts E h L = Inr (h', out)"
  shows "(split_refs h L = [] \<and> h' = h \<and> out = filter (\<lambda>n. \<not> is_split h n) L)
       \<or> (\<exists>skip add. join_outer E (split_refs h L) (split_refs h L) h [] [] = Inr (h', skip, add)
             \<and> out = filter (\<lambda>n. \<not> is_split h n) L @ map Layout add)"
proof (cases "split_refs h L = []")
  case True
  then show ?thesis using assms by (auto simp: join_dual_card_layouts_def)
next
  case False
  then obtain skip add where
    "join_outer E (split_refs h L) (split_refs h L) h [] [] = Inr (h', skip, add)"
    "out = filter (\<lambda>n. \<not> is_split h n) L @ map Layout add"
    using assms
    by (cases "join_outer E (split_refs h L) (split_refs h L) h [] []")
       (auto simp: join_dual_card_layouts_def Let_def)
  then show ?thesis by blast
qed

lemma join_idempotent:
  assumes run: "join_dual_card_layouts E h L = Inr (h', out)"
  shows "join_dual_card_layouts E h' out = Inr (h', out)"
proof -
  let ?N = "filter (\<lambda>n. \<not> is_split h n) L"
  let ?S = "split_refs h L"
  from join_success[OF run] show ?thesis
  proof
    assume a: "?S = [] \<and> h' = h \<and> out = ?N"
    then show ?thesis
      by (simp add: join_dual_card_layouts_def split_refs_normal)
  next
    assume "\<exists>skip add. join_outer E ?S ?S h [] [] = Inr (h', skip, add) \<and> out = ?N @ map Layout add"
    then obtain skip add where outer: "join_outer E ?S ?S h [] [] = Inr (h', skip, add)"
      and out: "out = ?N @ map Layout add" by blast
    have inv: "merge_inv E h ?S h' skip add"
      using join_outer_inv[OF outer _ merge_inv_start] by simp
    have sd: "same_data h h'" using inv by (simp add: merge_inv_def)
    have sub: "set add \<subseteq> set ?S" using inv by (simp add: merge_inv_def)
    have cls: "\<forall>r\<in>set add. card_class (h' r) = Split"
      using sub by (auto simp: set_split_refs same_data_class[OF sd])
    have isp: "(\<lambda>n. \<not> is_split h' n) = (\<lambda>n. \<not> is_split h n)"
      using same_data_is_split[OF sd] by auto
    have n2: "filter (\<lambda>n. \<not> is_split h' n) out = ?N"
      unfolding out using normal_layouts[OF cls] by (simp add: isp)
    have s2: "split_refs h' out = add"
      unfolding out split_refs_append
      using split_refs_layouts[OF cls] split_refs_normal[of h L]
      by (simp add: same_data_split_refs[OF sd])
    show ?thesis
    proof (cases "add = []")
      case True
      then show ?thesis using n2 s2 out by (simp add: join_dual_card_layouts_def)
    next
      case False
      have keys: "\<exists>ka kc. split_str E (h' c) = Inr kc \<and> split_str E (h' a) = Inr ka \<and> kc \<noteq> ka"
        if ma: "a \<in> set add" and mc: "c \<in> set add" and ne: "c \<noteq> a" for a c
      proof -
        have cS: "c \<in> set ?S" using mc sub by auto
        have i3: "\<forall>a\<in>set add. \<forall>c\<in>set ?S. c \<noteq> a \<longrightarrow>
            (\<exists>ka kc. split_str E (h c) = Inr kc \<and> split_str E (h a) = Inr ka
                     \<and> (kc = ka \<longrightarrow> c \<in> set skip))"
          using inv by (simp add: merge_inv_def)
        have i4: "\<forall>a\<in>set add. \<forall>b\<in>set add. a \<noteq> b \<longrightarrow> split_str E (h a) \<noteq> split_str E (h b)"
          using inv by (simp add: merge_inv_def)
        have "\<exists>ka kc. split_str E (h c) = Inr kc \<and> split_str E (h a) = Inr ka
                     \<and> (kc = ka \<longrightarrow> c \<in> set skip)"
          using i3[rule_format, of a c] ma cS ne by simp
        then obtain ka kc where k: "split_str E (h c) = Inr kc" "split_str E (h a) = Inr ka"
          by blast
        have "split_str E (h a) \<noteq> split_str E (h c)"
          using i4[rule_format, of a c] ma mc ne by auto
        then have "kc \<noteq> ka" using k by auto
        then show ?thesis using k by (simp add: same_data_key[OF sd])
      qed
      have "join_outer E add add h' [] [] = Inr (h', [], [] @ add)"
        by (rule join_outer_no_match[OF keys]) auto
      then show ?thesis using False n2 s2 out by (simp add: join_dual_card_layouts_def)
    qed
  qed
qed

lemma join_singleton: "join_dual_card_layouts E h [n] = Inr (h, [n])"
proof (cases n)
  case (Message m)
  then show ?thesis by (simp add: join_dual_card_layouts_def is_split_def)
next
  case (Layout r)
  then show ?thesis by (simp add: join_dual_card_layouts_def is_split_def)
qed

lemma join_lone:
  assumes run: "join_dual_card_layouts E h L = Inr (h', out)"
    and mem: "Layout r \<in> set L" and sp: "card_class (h r) = Split"
    and lone: "\<And>c. Layout c \<in> set L \<Longrightarrow> card_class (h c) = Split \<Longrightarrow> c \<noteq> r \<Longrightarrow>
                 split_str E (h c) \<noteq> split_str E (h r)"
  shows "Layout r \<in> set out \<and> h' r = h r"
proof -
  let ?N = "filter (\<lambda>n. \<not> is_split h n) L"
  let ?S = "split_refs h L"
  have rS: "r \<in> set ?S" using mem sp by (simp add: set_split_refs)
  then have ne: "?S \<noteq> []" by auto
  from join_success[OF run] ne obtain skip add where
    outer: "join_outer E ?S ?S h [] [] = Inr (h', skip, add)" and out: "out = ?N @ map Layout add"
    by blast
  have l: "\<And>c. c \<in> set ?S \<Longrightarrow> c \<noteq> r \<Longrightarrow> split_str E (h c) \<noteq> split_str E (h r)"
    using lone by (simp add: set_split_refs)
  have "r \<notin> set skip \<and> h' r = h r \<and> (r \<in> set ?S \<or> r \<in> set [] \<longrightarrow> r \<in> set add)"
    by (rule join_outer_lone[OF outer _ same_data_refl rS _ l]) auto
  then show ?thesis using rS out by auto
qed

lemma split_str_error: "split_str E obj = Inl e \<Longrightarrow> e = IndexError \<or> e = ValueError"
  by (auto simp: split_str_def display_name_def collector_number_def py_int_def
      split: sum.splits list.splits option.splits if_splits)

lemma joined_art_file_error:
  "joined_art_file E a b = Inl e \<Longrightarrow> e = IndexError \<or> e = TypeError"
  by (auto simp: joined_art_file_def name_matches_file_def split_name_def unpack_def
      split: sum.splits list.splits bool.splits art_value.splits)

lemma join_inner_error: "join_inner E crd cs h skip = Inl e \<Longrightarrow> e \<noteq> MergeAmbiguity"
proof (induction cs arbitrary: h skip)
  case Nil then show ?case by simp
next
  case (Cons c cs)
  show ?case
  proof (cases "c = crd")
    case True then show ?thesis using Cons by simp
  next
    case False
    show ?thesis
    proof (cases "split_str E (h c)")
      case (Inl x)
      then show ?thesis using Cons.prems False split_str_error[OF Inl] by auto
    next
      case a: (Inr a)
      show ?thesis
      proof (cases "split_str E (h crd)")
        case (Inl x)
        then show ?thesis using Cons.prems False a split_str_error[OF Inl] by auto
      next
        case b: (Inr b)
        show ?thesis
        proof (cases "a = b")
          case ne: False
          then show ?thesis using Cons False a b by simp
        next
          case eq: True
          show ?thesis
          proof (cases "joined_art_file E (h crd) (h c)")
            case (Inl x)
            then show ?thesis using Cons.prems False a b eq joined_art_file_error[OF Inl] by auto
          next
            case (Inr fs)
            then show ?thesis using Cons False a b eq by simp
          qed
        qed
      qed
    qed
  qed
qed

lemma join_outer_error: "join_outer E S rest h skip add = Inl e \<Longrightarrow> e \<noteq> MergeAmbiguity"
proof (induction rest arbitrary: h skip add)
  case Nil then show ?case by simp
next
  case (Cons crd rest)
  show ?case
  proof (cases "crd \<in> set skip")
    case True then show ?thesis using Cons by simp
  next
    case False
    show ?thesis
    proof (cases "join_inner E crd S h skip")
      case (Inl x)
      then show ?thesis using Cons.prems False join_inner_error[OF Inl] by simp
    next
      case (Inr p)
      then show ?thesis using Cons False by (cases p) simp
    qed
  qed
qed

lemma join_error: "join_dual_card_layouts E h L \<noteq> Inl MergeAmbiguity"
proof
  assume a: "join_dual_card_layouts E h L = Inl MergeAmbiguity"
  then have ne: "split_refs h L \<noteq> []" by (auto simp: join_dual_card_layouts_def Let_def)
  have "join_outer E (split_refs h L) (split_refs h L) h [] [] = Inl MergeAmbiguity"
    using a ne
    by (cases "join_outer E (split_refs h L) (split_refs h L) h [] []")
       (auto simp: join_dual_card_layouts_def Let_def)
  then show False using join_outer_error by blast
qed

lemma join_one_per_key:
  assumes run: "join_dual_card_layouts E h L = Inr (h', out)"
  shows "(\<forall>a b. Layout a \<in> set out \<and> Layout b \<in> set out \<and> card_class (h a) = Split
              \<and> card_class (h b) = Split \<and> a \<noteq> b \<longrightarrow> split_str E (h a) \<noteq> split_str E (h b))
       \<and> (\<forall>r. Layout r \<in> set L \<and> card_class (h r) = Split \<longrightarrow>
             (\<exists>a. Layout a \<in> set out \<and> card_class (h a) = Split
                  \<and> split_str E (h a) = split_str E (h r)))"
proof -
  let ?N = "filter (\<lambda>n. \<not> is_split h n) L"
  let ?S = "split_refs h L"
  from join_success[OF run] show ?thesis
  proof
    assume a: "?S = [] \<and> h' = h \<and> out = ?N"
    then have "\<And>r. Layout r \<in> set L \<Longrightarrow> card_class (h r) \<noteq> Split"
      using set_split_refs[of h L] by auto
    then show ?thesis using a by (auto simp: is_split_def)
  next
    assume "\<exists>skip add. join_outer E ?S ?S h [] [] = Inr (h', skip, add) \<and> out = ?N @ map Layout add"
    then obtain skip add where outer: "join_outer E ?S ?S h [] [] = Inr (h', skip, add)"
      and out: "out = ?N @ map Layout add" by blast
    have r: "merge_inv E h ?S h' skip add \<and> set [] \<subseteq> set skip \<and> set [] \<subseteq> set add
             \<and> (\<forall>r\<in>set ?S. r \<in> set skip \<or> r \<in> set add)"
      by (rule join_outer_inv[OF outer _ merge_inv_start]) simp
    then have inv: "merge_inv E h ?S h' skip add"
      and all: "\<forall>r\<in>set ?S. r \<in> set skip \<or> r \<in> set add" by auto
    have sub: "set add \<subseteq> set ?S" using inv by (simp add: merge_inv_def)
    have i4: "\<forall>a\<in>set add. \<forall>b\<in>set add. a \<noteq> b \<longrightarrow> split_str E (h a) \<noteq> split_str E (h b)"
      using inv by (simp add: merge_inv_def)
    have i5: "\<forall>x\<in>set skip. \<exists>a\<in>set add. split_str E (h x) = split_str E (h a)"
      using inv by (simp add: merge_inv_def)
    have mem: "a \<in> set add" if "Layout a \<in> set out" "card_class (h a) = Split" for a
      using that unfolding out by (auto simp: is_split_def)
    have 1: "\<forall>a b. Layout a \<in> set out \<and> Layout b \<in> set out \<and> card_class (h a) = Split
              \<and> card_class (h b) = Split \<and> a \<noteq> b \<longrightarrow> split_str E (h a) \<noteq> split_str E (h b)"
    proof (intro allI impI)
      fix a b
      assume h: "Layout a \<in> set out \<and> Layout b \<in> set out \<and> card_class (h a) = Split
              \<and> card_class (h b) = Split \<and> a \<noteq> b"
      then have "a \<in> set add" "b \<in> set add" "a \<noteq> b" using mem by auto
      then show "split_str E (h a) \<noteq> split_str E (h b)" using i4[rule_format, of a b] by simp
    qed
    have 2: "\<forall>r. Layout r \<in> set L \<and> card_class (h r) = Split \<longrightarrow>
             (\<exists>a. Layout a \<in> set out \<and> card_class (h a) = Split
                  \<and> split_str E (h a) = split_str E (h r))"
    proof (intro allI impI)
      fix r assume "Layout r \<in> set L \<and> card_class (h r) = Split"
      then have rS: "r \<in> set ?S" by (simp add: set_split_refs)
      have "\<exists>a\<in>set add. split_str E (h a) = split_str E (h r)"
      proof (cases "r \<in> set add")
        case True then show ?thesis by blast
      next
        case False
        then have "r \<in> set skip" using all rS by blast
        then obtain a where "a \<in> set add" "split_str E (h r) = split_str E (h a)"
          using i5[rule_format, of r] by blast
        then show ?thesis by auto
      qed
      then obtain a where a: "a \<in> set add" "split_str E (h a) = split_str E (h r)" by blast
      then have "card_class (h a) = Split" using sub set_split_refs[of h L] by auto
      then show "\<exists>a. Layout a \<in> set out \<and> card_class (h a) = Split
                  \<and> split_str E (h a) = split_str E (h r)"
        using a out by auto
    qed
    show ?thesis using 1 2 by blast
  qed
qed

subsection \<open>What the merge leaves in the kept objects\<close>

lemma name_matches_file_art:
  "name_matches_file E (obj\<lparr>lo_art_file := v\<rparr>) = name_matches_file E obj"
  unfolding name_matches_file_def split_name_def names_def cards_def is_alt_lang_def lang_def
    art_update_data ..

lemma set_art_file_twice: "set_art_file (set_art_file h r a) r b = set_art_file h r b"
  by (simp add: set_art_file_def)

lemma set_art_file_self: "set_art_file h r a r = (h r)\<lparr>lo_art_file := Some (AList a)\<rparr>"
  by (simp add: set_art_file_def)

lemma files_of_set_art_self: "files_of (set_art_file h r a) r = a"
  by (simp add: files_of_def set_art_file_def art_file_def unpack_def)

lemma files_of_set_art_other: "x \<noteq> r \<Longrightarrow> files_of (set_art_file h r a) x = files_of h x"
  by (simp add: files_of_def set_art_file_def)

lemma name_matches_set_art:
  "name_matches_file E (set_art_file h r a x) = name_matches_file E (h x)"
  by (cases "x = r") (simp_all add: set_art_file_def name_matches_file_art)

lemma partners_set_art: "partners E (set_art_file h r a) S g = partners E h S g"
  by (simp add: partners_def set_art_file_key)

lemma partners_not_self: "c \<in> set (partners E h S g) \<Longrightarrow> c \<noteq> g"
  by (simp add: partners_def)

lemma joined_art_file_value:
  assumes "joined_art_file E crd c = Inr fs"
  shows "\<exists>b own f. name_matches_file E crd = Inr b \<and> unpack (art_file crd) = Inr own
           \<and> unpack (art_file c) = Inr f \<and> fs = (if b then own @ f else f @ own)"
  using assms
  by (auto simp: joined_art_file_def split: sum.splits bool.splits)

lemma absorbed_one: "absorbed b own [f] = (if b then own @ f else f @ own)"
  by (simp add: absorbed_def)

lemma absorbed_step:
  "absorbed b (if b then own @ f else f @ own) rest = absorbed b own (f # rest)"
  by (simp add: absorbed_def)

lemma join_inner_files:
  "join_inner E crd cs h skip = Inr (h', skip') \<Longrightarrow>
   h' = (if partners E h cs crd = [] then h
         else set_art_file h crd
                (absorbed (name_matches_file E (h crd) = Inr True) (files_of h crd)
                   (map (files_of h) (partners E h cs crd))))"
proof (induction cs arbitrary: h skip)
  case Nil
  then show ?case by (simp add: partners_def)
next
  case (Cons c cs)
  show ?case
  proof (cases "c = crd")
    case True
    then have run: "join_inner E crd cs h skip = Inr (h', skip')" using Cons.prems by simp
    have "partners E h (c # cs) crd = partners E h cs crd" using True by (simp add: partners_def)
    then show ?thesis using Cons.IH[OF run] by simp
  next
    case False
    obtain a where a: "split_str E (h c) = Inr a"
      using Cons.prems False by (cases "split_str E (h c)") auto
    obtain b where b: "split_str E (h crd) = Inr b"
      using Cons.prems False a by (cases "split_str E (h crd)") auto
    show ?thesis
    proof (cases "a = b")
      case ne: False
      then have run: "join_inner E crd cs h skip = Inr (h', skip')"
        using Cons.prems False a b by simp
      have "partners E h (c # cs) crd = partners E h cs crd"
        using ne a b by (simp add: partners_def)
      then show ?thesis using Cons.IH[OF run] by simp
    next
      case eq: True
      obtain fs where fs: "joined_art_file E (h crd) (h c) = Inr fs"
        using Cons.prems False a b eq by (cases "joined_art_file E (h crd) (h c)") auto
      let ?h1 = "set_art_file h crd fs"
      have run: "join_inner E crd cs ?h1 (skip @ [crd, c]) = Inr (h', skip')"
        using Cons.prems False a b eq fs by simp
      obtain m own f where m: "name_matches_file E (h crd) = Inr m"
        and own: "unpack (art_file (h crd)) = Inr own" and f: "unpack (art_file (h c)) = Inr f"
        and fsv: "fs = (if m then own @ f else f @ own)"
        using joined_art_file_value[OF fs] by blast
      let ?P = "partners E h cs crd"
      let ?B = "name_matches_file E (h crd) = Inr True"
      have B: "?B = m" using m by simp
      have fo: "files_of h crd = own" "files_of h c = f"
        using own f by (simp_all add: files_of_def)
      have pc: "partners E h (c # cs) crd = c # ?P"
        using False a b eq by (simp add: partners_def)
      have mp: "map (files_of ?h1) ?P = map (files_of h) ?P"
        by (rule map_cong) (auto simp: files_of_set_art_other dest: partners_not_self)
      have ih: "h' = (if ?P = [] then ?h1
                else set_art_file h crd (absorbed ?B fs (map (files_of h) ?P)))"
        using Cons.IH[OF run]
        by (simp add: partners_set_art name_matches_set_art files_of_set_art_self
            set_art_file_twice mp)
      have "h' = set_art_file h crd (absorbed ?B own (f # map (files_of h) ?P))"
      proof (cases "?P = []")
        case True
        then show ?thesis using ih by (simp add: B fsv absorbed_one)
      next
        case False
        then show ?thesis using ih by (simp add: B fsv absorbed_step)
      qed
      then show ?thesis by (simp add: pc fo)
    qed
  qed
qed

lemma join_inner_card_skipped:
  "join_inner E crd cs h skip = Inr (h', skip') \<Longrightarrow> partners E h cs crd \<noteq> [] \<Longrightarrow>
   crd \<in> set skip'"
proof (induction cs arbitrary: h skip)
  case Nil then show ?case by (simp add: partners_def)
next
  case (Cons c cs)
  show ?case
  proof (cases "c = crd")
    case True
    then have run: "join_inner E crd cs h skip = Inr (h', skip')" using Cons.prems by simp
    have "partners E h cs crd \<noteq> []" using Cons.prems(2) True by (simp add: partners_def)
    then show ?thesis using Cons.IH[OF run] by simp
  next
    case False
    obtain a where a: "split_str E (h c) = Inr a"
      using Cons.prems False by (cases "split_str E (h c)") auto
    obtain b where b: "split_str E (h crd) = Inr b"
      using Cons.prems False a by (cases "split_str E (h crd)") auto
    show ?thesis
    proof (cases "a = b")
      case ne: False
      then have run: "join_inner E crd cs h skip = Inr (h', skip')"
        using Cons.prems False a b by simp
      have "partners E h cs crd \<noteq> []" using Cons.prems(2) ne a b by (simp add: partners_def)
      then show ?thesis using Cons.IH[OF run] by simp
    next
      case eq: True
      obtain fs where fs: "joined_art_file E (h crd) (h c) = Inr fs"
        using Cons.prems False a b eq by (cases "joined_art_file E (h crd) (h c)") auto
      have run: "join_inner E crd cs (set_art_file h crd fs) (skip @ [crd, c]) = Inr (h', skip')"
        using Cons.prems False a b eq fs by simp
      have "set (skip @ [crd, c]) \<subseteq> set skip'" by (rule join_inner_skip_mono[OF run])
      then show ?thesis by auto
    qed
  qed
qed

lemma partners_same_data: "same_data h0 h \<Longrightarrow> partners E h S g = partners E h0 S g"
  by (simp add: partners_def same_data_key)

lemma partners_mem:
  "c \<in> set (partners E h S g) \<longleftrightarrow> c \<in> set S \<and> c \<noteq> g \<and> split_str E (h c) = split_str E (h g)"
  by (auto simp: partners_def)

lemma partners_empty:
  "partners E h S g = [] \<longleftrightarrow> (\<forall>c\<in>set S. c \<noteq> g \<longrightarrow> split_str E (h c) \<noteq> split_str E (h g))"
  by (auto simp: partners_def filter_empty_conv)

lemma merge_inv_partner_skipped:
  assumes mi: "merge_inv E h0 S h skip add"
    and a: "a \<in> set add" and c: "c \<in> set S" and ne: "c \<noteq> a"
    and k: "split_str E (h0 c) = split_str E (h0 a)"
  shows "c \<in> set skip"
proof -
  have i3: "\<forall>a\<in>set add. \<forall>c\<in>set S. c \<noteq> a \<longrightarrow>
            (\<exists>ka kc. split_str E (h0 c) = Inr kc \<and> split_str E (h0 a) = Inr ka
                     \<and> (kc = ka \<longrightarrow> c \<in> set skip))"
    using mi by (simp add: merge_inv_def)
  have "\<exists>ka kc. split_str E (h0 c) = Inr kc \<and> split_str E (h0 a) = Inr ka
                     \<and> (kc = ka \<longrightarrow> c \<in> set skip)"
    using i3[rule_format, of a c] a c ne by simp
  then show ?thesis using k by auto
qed

lemma full_inv_skipped:
  assumes mi: "merge_inv E h0 S h skip add"
    and fi: "full_inv E h0 S pre h skip add"
    and m: "crd \<in> set S" and sk: "crd \<in> set skip"
  shows "full_inv E h0 S (pre @ [crd]) h skip add"
proof -
  have i5: "\<forall>x\<in>set skip. \<exists>a\<in>set add. split_str E (h0 x) = split_str E (h0 a)"
    using mi by (simp add: merge_inv_def)
  have f3: "\<forall>g\<in>set add. partners E h0 S g \<noteq> [] \<longrightarrow> g \<in> set skip"
    using fi by (simp add: full_inv_def)
  have f4: "\<forall>x\<in>set pre. \<forall>c\<in>set S. c \<noteq> x \<and> split_str E (h0 c) = split_str E (h0 x)
             \<longrightarrow> c \<in> set skip"
    using fi by (simp add: full_inv_def)
  obtain a where a: "a \<in> set add" "split_str E (h0 crd) = split_str E (h0 a)"
    using i5[rule_format, of crd] sk by blast
  have new: "c \<in> set skip"
    if c: "c \<in> set S" "c \<noteq> crd" "split_str E (h0 c) = split_str E (h0 crd)" for c
  proof (cases "c = a")
    case False
    show ?thesis
      by (rule merge_inv_partner_skipped[OF mi a(1) c(1) False]) (simp add: c a)
  next
    case True
    have "crd \<in> set (partners E h0 S a)"
      using m c True a by (simp add: partners_mem)
    then have "partners E h0 S a \<noteq> []" by auto
    then show ?thesis using f3[rule_format, of a] a True by simp
  qed
  have 4: "\<forall>x\<in>set (pre @ [crd]). \<forall>c\<in>set S. c \<noteq> x \<and> split_str E (h0 c) = split_str E (h0 x)
             \<longrightarrow> c \<in> set skip"
  proof (intro ballI impI)
    fix x c assume x: "x \<in> set (pre @ [crd])" and c: "c \<in> set S"
      and h: "c \<noteq> x \<and> split_str E (h0 c) = split_str E (h0 x)"
    show "c \<in> set skip"
    proof (cases "x \<in> set pre")
      case True then show ?thesis using f4[rule_format, of x c] c h by simp
    next
      case False
      then have "x = crd" using x by simp
      then show ?thesis using new[of c] c h by simp
    qed
  qed
  show ?thesis
    using fi 4 unfolding full_inv_def by (intro conjI) simp_all
qed

lemma takeWhile_prefix_set:
  "S = pre @ crd # rest \<Longrightarrow> set (takeWhile (\<lambda>x. x \<noteq> crd) S) \<subseteq> set pre"
proof -
  assume S: "S = pre @ crd # rest"
  have "takeWhile (\<lambda>x. x \<noteq> crd) (pre @ crd # rest) = takeWhile (\<lambda>x. x \<noteq> crd) pre"
    by (induction pre) auto
  then show ?thesis using S set_takeWhileD by fastforce
qed

lemma full_inv_added:
  assumes mi: "merge_inv E h0 S h skip add"
    and fi: "full_inv E h0 S pre h skip add"
    and S: "S = pre @ crd # rest" and ns: "crd \<notin> set skip"
    and inner: "join_inner E crd S h skip = Inr (h1, skip1)"
  shows "full_inv E h0 S (pre @ [crd]) h1 skip1 (add @ [crd])"
proof -
  have m: "crd \<in> set S" using S by simp
  have sd: "same_data h0 h" using mi by (simp add: merge_inv_def)
  have k: "\<And>x. split_str E (h x) = split_str E (h0 x)" using same_data_key[OF sd] by simp
  have f1: "\<forall>x. x \<notin> set add \<longrightarrow> h x = h0 x"
    and f2: "\<forall>g\<in>set add. h g = merged_obj E h0 S g"
    and f3: "\<forall>g\<in>set add. partners E h0 S g \<noteq> [] \<longrightarrow> g \<in> set skip"
    and f4: "\<forall>x\<in>set pre. \<forall>c\<in>set S. c \<noteq> x \<and> split_str E (h0 c) = split_str E (h0 x)
             \<longrightarrow> c \<in> set skip"
    and f5: "\<forall>g\<in>set add. \<forall>c\<in>set (takeWhile (\<lambda>x. x \<noteq> g) S).
             split_str E (h0 c) \<noteq> split_str E (h0 g)"
    using fi by (simp_all add: full_inv_def)
  have sub: "set skip \<subseteq> set skip1" by (rule join_inner_skip_mono[OF inner])
  let ?P = "partners E h0 S crd"
  have P: "partners E h S crd = ?P" by (rule partners_same_data[OF sd])
  have h1: "h1 = (if ?P = [] then h
         else set_art_file h crd
                (absorbed (name_matches_file E (h crd) = Inr True) (files_of h crd)
                   (map (files_of h) ?P)))"
    using join_inner_files[OF inner] unfolding P .
  have other: "\<And>x. x \<noteq> crd \<Longrightarrow> h1 x = h x" using join_inner_other[OF inner] by simp
  have pna: "c \<notin> set add" if "c \<in> set ?P" for c
  proof
    assume ca: "c \<in> set add"
    have c: "c \<in> set S" "c \<noteq> crd" "split_str E (h0 c) = split_str E (h0 crd)"
      using that by (simp_all add: partners_mem)
    have "crd \<in> set skip"
      by (rule merge_inv_partner_skipped[OF mi ca m]) (use c in auto)
    then show False using ns by simp
  qed
  have crd_obj: "h1 crd = merged_obj E h0 S crd"
  proof (cases "crd \<in> set add")
    case True
    then have "?P = []" using f3[rule_format, of crd] ns by auto
    then have "h1 = h" using h1 by simp
    then show ?thesis using f2[rule_format, of crd] True by simp
  next
    case False
    then have c0: "h crd = h0 crd" using f1 by simp
    have mp: "map (files_of h) ?P = map (files_of h0) ?P"
    proof (rule map_cong)
      fix c assume "c \<in> set ?P"
      then have "h c = h0 c" using pna f1 by blast
      then show "files_of h c = files_of h0 c" by (simp add: files_of_def)
    qed simp
    have fo: "files_of h crd = files_of h0 crd" using c0 by (simp add: files_of_def)
    show ?thesis
    proof (cases "?P = []")
      case True
      then show ?thesis using h1 c0 by (simp add: merged_obj_def)
    next
      case False
      then show ?thesis
        using h1 by (simp add: merged_obj_def set_art_file_self c0 mp fo)
    qed
  qed
  have 1: "\<forall>x. x \<notin> set (add @ [crd]) \<longrightarrow> h1 x = h0 x"
    using other f1 by simp
  have 2: "\<forall>g\<in>set (add @ [crd]). h1 g = merged_obj E h0 S g"
  proof
    fix g assume g: "g \<in> set (add @ [crd])"
    show "h1 g = merged_obj E h0 S g"
    proof (cases "g = crd")
      case True then show ?thesis using crd_obj by simp
    next
      case False
      then have "g \<in> set add" using g by simp
      then show ?thesis using other[OF False] f2 by simp
    qed
  qed
  have 3: "\<forall>g\<in>set (add @ [crd]). partners E h0 S g \<noteq> [] \<longrightarrow> g \<in> set skip1"
  proof (intro ballI impI)
    fix g assume g: "g \<in> set (add @ [crd])" and p: "partners E h0 S g \<noteq> []"
    show "g \<in> set skip1"
    proof (cases "g = crd")
      case True
      then show ?thesis using join_inner_card_skipped[OF inner] p P by simp
    next
      case False
      then have "g \<in> set add" using g by simp
      then show ?thesis using f3[rule_format, of g] p sub by auto
    qed
  qed
  have newk: "c \<in> set skip1"
    if c: "c \<in> set S" "c \<noteq> crd" "split_str E (h0 c) = split_str E (h0 crd)" for c
  proof -
    have "\<exists>a b. split_str E (h c) = Inr a \<and> split_str E (h crd) = Inr b \<and> (a = b \<longrightarrow> c \<in> set skip1)"
      by (rule join_inner_keys[OF inner c(1) c(2)])
    then show ?thesis using c(3) unfolding k by auto
  qed
  have 4: "\<forall>x\<in>set (pre @ [crd]). \<forall>c\<in>set S. c \<noteq> x \<and> split_str E (h0 c) = split_str E (h0 x)
             \<longrightarrow> c \<in> set skip1"
  proof (intro ballI impI)
    fix x c assume x: "x \<in> set (pre @ [crd])" and c: "c \<in> set S"
      and h: "c \<noteq> x \<and> split_str E (h0 c) = split_str E (h0 x)"
    show "c \<in> set skip1"
    proof (cases "x \<in> set pre")
      case True then show ?thesis using f4[rule_format, of x c] c h sub by auto
    next
      case False
      then have "x = crd" using x by simp
      then show ?thesis using newk[of c] c h by simp
    qed
  qed
  have 5: "\<forall>g\<in>set (add @ [crd]). \<forall>c\<in>set (takeWhile (\<lambda>x. x \<noteq> g) S).
             split_str E (h0 c) \<noteq> split_str E (h0 g)"
  proof (intro ballI)
    fix g c assume g: "g \<in> set (add @ [crd])" and c: "c \<in> set (takeWhile (\<lambda>x. x \<noteq> g) S)"
    show "split_str E (h0 c) \<noteq> split_str E (h0 g)"
    proof (cases "g \<in> set add")
      case True then show ?thesis using f5[rule_format, of g c] c by simp
    next
      case False
      then have gc: "g = crd" using g by simp
      have cp: "c \<in> set pre" using c takeWhile_prefix_set[OF S] gc by auto
      have cn: "c \<noteq> crd" using c gc by (auto dest: set_takeWhileD)
      show ?thesis
      proof
        assume e: "split_str E (h0 c) = split_str E (h0 g)"
        have "crd \<in> set skip" using f4[rule_format, of c crd] cp m cn e gc by auto
        then show False using ns by simp
      qed
    qed
  qed
  show ?thesis unfolding full_inv_def by (intro conjI 1 2 3 4 5)
qed

lemma join_outer_full:
  "join_outer E S rest h skip add = Inr (h', skip', add') \<Longrightarrow> S = pre @ rest \<Longrightarrow>
   merge_inv E h0 S h skip add \<Longrightarrow> full_inv E h0 S pre h skip add \<Longrightarrow>
   full_inv E h0 S S h' skip' add'"
proof (induction rest arbitrary: pre h skip add)
  case Nil then show ?case by simp
next
  case (Cons crd rest)
  have S: "S = pre @ crd # rest" by (rule Cons.prems(2))
  have S': "S = (pre @ [crd]) @ rest" using S by simp
  have m: "crd \<in> set S" using S by simp
  show ?case
  proof (cases "crd \<in> set skip")
    case True
    then have run: "join_outer E S rest h skip add = Inr (h', skip', add')"
      using Cons.prems(1) by simp
    have fi: "full_inv E h0 S (pre @ [crd]) h skip add"
      by (rule full_inv_skipped[OF Cons.prems(3) Cons.prems(4) m True])
    show ?thesis by (rule Cons.IH[OF run S' Cons.prems(3) fi])
  next
    case False
    obtain h1 skip1 where inner: "join_inner E crd S h skip = Inr (h1, skip1)"
      using Cons.prems(1) False by (cases "join_inner E crd S h skip") auto
    have run: "join_outer E S rest h1 skip1 (add @ [crd]) = Inr (h', skip', add')"
      using Cons.prems(1) False inner by simp
    have mi: "merge_inv E h0 S h1 skip1 (add @ [crd])"
      by (rule merge_inv_step[OF Cons.prems(3) m False inner])
    have fi: "full_inv E h0 S (pre @ [crd]) h1 skip1 (add @ [crd])"
      by (rule full_inv_added[OF Cons.prems(3) Cons.prems(4) S False inner])
    show ?thesis by (rule Cons.IH[OF run S' mi fi])
  qed
qed

lemma full_inv_start: "full_inv E h S [] h [] []"
  by (simp add: full_inv_def)

lemma join_kept:
  assumes run: "join_dual_card_layouts E h L = Inr (h', out)"
  shows "(\<forall>g. Layout g \<in> set out \<and> card_class (h g) = Split \<longrightarrow>
             Layout g \<in> set L
             \<and> h' g = merged_obj E h (split_refs h L) g
             \<and> (\<forall>c\<in>set (takeWhile (\<lambda>x. x \<noteq> g) (split_refs h L)).
                    split_str E (h c) \<noteq> split_str E (h g)))
       \<and> (\<forall>x. \<not> (Layout x \<in> set out \<and> card_class (h x) = Split) \<longrightarrow> h' x = h x)
       \<and> filter (\<lambda>n. \<not> is_split h n) out = filter (\<lambda>n. \<not> is_split h n) L"
proof -
  let ?N = "filter (\<lambda>n. \<not> is_split h n) L"
  let ?S = "split_refs h L"
  from join_success[OF run] show ?thesis
  proof
    assume a: "?S = [] \<and> h' = h \<and> out = ?N"
    then have "\<And>r. Layout r \<in> set L \<Longrightarrow> card_class (h r) \<noteq> Split"
      using set_split_refs[of h L] by auto
    then show ?thesis using a by (auto simp: is_split_def)
  next
    assume "\<exists>skip add. join_outer E ?S ?S h [] [] = Inr (h', skip, add) \<and> out = ?N @ map Layout add"
    then obtain skip add where outer: "join_outer E ?S ?S h [] [] = Inr (h', skip, add)"
      and out: "out = ?N @ map Layout add" by blast
    have inv: "merge_inv E h ?S h' skip add"
      using join_outer_inv[OF outer _ merge_inv_start] by simp
    have sub: "set add \<subseteq> set ?S" using inv by (simp add: merge_inv_def)
    have fi: "full_inv E h ?S ?S h' skip add"
      by (rule join_outer_full[OF outer _ merge_inv_start full_inv_start]) simp
    have f1: "\<forall>x. x \<notin> set add \<longrightarrow> h' x = h x"
      and f2: "\<forall>g\<in>set add. h' g = merged_obj E h ?S g"
      and f5: "\<forall>g\<in>set add. \<forall>c\<in>set (takeWhile (\<lambda>x. x \<noteq> g) ?S).
             split_str E (h c) \<noteq> split_str E (h g)"
      using fi by (simp_all add: full_inv_def)
    have mem: "a \<in> set add" if "Layout a \<in> set out" "card_class (h a) = Split" for a
      using that unfolding out by (auto simp: is_split_def)
    have mem2: "Layout a \<in> set out \<and> card_class (h a) = Split" if "a \<in> set add" for a
      using that sub set_split_refs[of h L] unfolding out by auto
    have 1: "\<forall>g. Layout g \<in> set out \<and> card_class (h g) = Split \<longrightarrow>
             Layout g \<in> set L
             \<and> h' g = merged_obj E h ?S g
             \<and> (\<forall>c\<in>set (takeWhile (\<lambda>x. x \<noteq> g) ?S).
                    split_str E (h c) \<noteq> split_str E (h g))"
    proof (intro allI impI)
      fix g assume "Layout g \<in> set out \<and> card_class (h g) = Split"
      then have g: "g \<in> set add" using mem by simp
      then have "Layout g \<in> set L" using sub set_split_refs[of h L] by auto
      then show "Layout g \<in> set L
             \<and> h' g = merged_obj E h ?S g
             \<and> (\<forall>c\<in>set (takeWhile (\<lambda>x. x \<noteq> g) ?S).
                    split_str E (h c) \<noteq> split_str E (h g))"
        using f2[rule_format, OF g] f5[rule_format, OF g] by simp
    qed
    have 2: "\<forall>x. \<not> (Layout x \<in> set out \<and> card_class (h x) = Split) \<longrightarrow> h' x = h x"
      using mem2 f1 by blast
    have cls: "\<forall>r\<in>set add. card_class (h r) = Split"
      using sub by (auto simp: set_split_refs)
    have 3: "filter (\<lambda>n. \<not> is_split h n) out = ?N"
      unfolding out using normal_layouts[OF cls] by simp
    show ?thesis using 1 2 3 by blast
  qed
qed

subsection \<open>When the merge returns\<close>

lemma returns_Inr: "returns r \<longleftrightarrow> (\<exists>v. r = Inr v)"
  by (cases r) (simp_all add: returns_def)

lemma mergeable_set_art: "mergeable E h x \<Longrightarrow> mergeable E (set_art_file h r fs) x"
  by (cases "x = r")
     (simp_all add: mergeable_def set_art_file_key name_matches_set_art,
      simp_all add: set_art_file_def art_file_def unpack_def returns_def)

lemma joined_art_file_returns:
  "mergeable E h crd \<Longrightarrow> mergeable E h c \<Longrightarrow> \<exists>fs. joined_art_file E (h crd) (h c) = Inr fs"
  by (auto simp: mergeable_def returns_Inr joined_art_file_def split: bool.splits)

lemma join_inner_returns:
  "mergeable E h crd \<Longrightarrow> \<forall>c\<in>set cs. mergeable E h c \<Longrightarrow>
   \<exists>h' skip'. join_inner E crd cs h skip = Inr (h', skip')"
proof (induction cs arbitrary: h skip)
  case Nil then show ?case by simp
next
  case (Cons c cs)
  have mc: "mergeable E h c" and mcs: "\<forall>c\<in>set cs. mergeable E h c" using Cons.prems(2) by simp_all
  show ?case
  proof (cases "c = crd")
    case True
    then show ?thesis using Cons.IH[OF Cons.prems(1) mcs] by simp
  next
    case False
    obtain a where a: "split_str E (h c) = Inr a" using mc by (auto simp: mergeable_def returns_Inr)
    obtain b where b: "split_str E (h crd) = Inr b"
      using Cons.prems(1) by (auto simp: mergeable_def returns_Inr)
    show ?thesis
    proof (cases "a = b")
      case ne: False
      then show ?thesis using Cons.IH[OF Cons.prems(1) mcs] False a b by simp
    next
      case eq: True
      obtain fs where fs: "joined_art_file E (h crd) (h c) = Inr fs"
        using joined_art_file_returns[OF Cons.prems(1) mc] by blast
      let ?h1 = "set_art_file h crd fs"
      have m1: "mergeable E ?h1 crd" by (rule mergeable_set_art[OF Cons.prems(1)])
      have m2: "\<forall>c\<in>set cs. mergeable E ?h1 c" using mcs mergeable_set_art by blast
      show ?thesis using Cons.IH[OF m1 m2, of "skip @ [crd, c]"] False a b eq fs by simp
    qed
  qed
qed

lemma join_inner_mergeable:
  assumes run: "join_inner E crd cs h skip = Inr (h', skip')" and m: "mergeable E h x"
  shows "mergeable E h' x"
  using join_inner_files[OF run] m by (simp add: mergeable_set_art split: if_splits)

lemma join_outer_returns:
  "\<forall>c\<in>set S. mergeable E h c \<Longrightarrow> set rest \<subseteq> set S \<Longrightarrow>
   \<exists>h' skip' add'. join_outer E S rest h skip add = Inr (h', skip', add')"
proof (induction rest arbitrary: h skip add)
  case Nil then show ?case by simp
next
  case (Cons crd rest)
  have sub: "set rest \<subseteq> set S" and m: "mergeable E h crd" using Cons.prems by auto
  show ?case
  proof (cases "crd \<in> set skip")
    case True
    then show ?thesis using Cons.IH[OF Cons.prems(1) sub] by simp
  next
    case False
    obtain h1 skip1 where inner: "join_inner E crd S h skip = Inr (h1, skip1)"
      using join_inner_returns[OF m Cons.prems(1)] by blast
    have m1: "\<forall>c\<in>set S. mergeable E h1 c"
      using Cons.prems(1) join_inner_mergeable[OF inner] by blast
    show ?thesis using Cons.IH[OF m1 sub, of skip1 "add @ [crd]"] False inner by simp
  qed
qed

lemma join_returns:
  assumes "\<forall>r. Layout r \<in> set L \<and> card_class (h r) = Split \<longrightarrow> mergeable E h r"
  shows "\<exists>h' out. join_dual_card_layouts E h L = Inr (h', out)"
proof (cases "split_refs h L = []")
  case True
  then show ?thesis by (simp add: join_dual_card_layouts_def)
next
  case False
  have "\<forall>c\<in>set (split_refs h L). mergeable E h c" using assms by (simp add: set_split_refs)
  then obtain h' skip' add' where
    "join_outer E (split_refs h L) (split_refs h L) h [] [] = Inr (h', skip', add')"
    using join_outer_returns[of "split_refs h L" E h "split_refs h L"] by blast
  then show ?thesis using False by (simp add: join_dual_card_layouts_def)
qed

subsection \<open>The merge on the example batches\<close>

lemmas merge_eval2 = merge_eval merged_pair_store_def merged_triple_store_def other_print_store_def

lemma join_listed_pair:
  "join_dual_card_layouts env0 listed_store [Layout 3, Layout 0, Layout 1]
     = Inr (merged_pair_store, [Layout 3, Layout 0])"
  by (simp add: merge_eval2 obj_eval)

lemma join_listed_triple:
  "join_dual_card_layouts env0 listed_store [Layout 0, Layout 1, Layout 2]
     = Inr (merged_triple_store, [Layout 0])"
  by (simp add: merge_eval2 obj_eval)

lemma join_fresh_triple:
  "join_dual_card_layouts env0 fresh_store [Layout 0, Layout 1, Layout 2] = Inl TypeError"
  by (simp add: merge_eval2 obj_eval)

lemma join_fresh_pair:
  "join_dual_card_layouts env0 fresh_store [Layout 0, Layout 1] = Inl TypeError"
  by (simp add: merge_eval2 obj_eval)

lemma join_other_print:
  "join_dual_card_layouts env0 other_print_store [Layout 0, Layout 1, Layout 3]
     = Inr (other_print_store, [Layout 3, Layout 0, Layout 1])"
  by (simp add: merge_eval2 obj_eval)

lemma listed_keys:
  "split_str env0 (listed_store 1) = split_str env0 (listed_store 0)"
  "split_str env0 (listed_store 2) = split_str env0 (listed_store 0)"
  "card_class (listed_store 0) = Split"
  "card_class (listed_store 1) = Split"
  "card_class (listed_store 2) = Split"
  by (simp_all add: merge_eval2 obj_eval)

lemma other_print_keys:
  "card_class (other_print_store 0) = Split"
  "card_class (other_print_store 3) \<noteq> Split"
  "split_str env0 (other_print_store 1) \<noteq> split_str env0 (other_print_store 0)"
  by (simp_all add: merge_eval2 obj_eval)

lemma merged_listed_0:
  "merged_obj env0 listed_store [0, 1, 2] 0
     = (listed_store 0)\<lparr>lo_art_file :=
          Some (AList [u ''art/Ice2.png'', u ''art/Ice.png'', u ''art/Fire.png''])\<rparr>"
  by (simp add: merged_obj_def partners_def absorbed_def files_of_def merge_eval2 obj_eval)

lemma listed_mergeable:
  "mergeable env0 listed_store 0" "mergeable env0 listed_store 1" "mergeable env0 listed_store 2"
  by (simp_all add: mergeable_def returns_def merge_eval2 obj_eval)

text \<open>
  C2. The merge is idempotent: whenever \<open>join_dual_card_layouts\<close> returns a batch, running
  it again on that batch (in the store it left) returns the same batch and leaves every
  object as it is. A batch of one entry comes back as it is. A Split object that no other
  Split object of the batch shares its display string with is in the result, unchanged.
\<close>

theorem join_dual_card_layouts_idempotent:
  "(join_dual_card_layouts E h L = Inr (h', out) \<longrightarrow>
      join_dual_card_layouts E h' out = Inr (h', out))
   \<and> join_dual_card_layouts E h [Layout r] = Inr (h, [Layout r])
   \<and> (join_dual_card_layouts E h L = Inr (h', out) \<and> Layout r \<in> set L
        \<and> card_class (h r) = Split
        \<and> (\<forall>c. Layout c \<in> set L \<and> card_class (h c) = Split \<and> c \<noteq> r
                \<longrightarrow> split_str E (h c) \<noteq> split_str E (h r))
      \<longrightarrow> Layout r \<in> set out \<and> h' r = h r)"
proof -
  have a: "join_dual_card_layouts E h' out = Inr (h', out)"
    if "join_dual_card_layouts E h L = Inr (h', out)"
    using that by (rule join_idempotent)
  have b: "join_dual_card_layouts E h [Layout r] = Inr (h, [Layout r])"
    by (rule join_singleton)
  have c: "Layout r \<in> set out \<and> h' r = h r"
    if p: "join_dual_card_layouts E h L = Inr (h', out) \<and> Layout r \<in> set L
        \<and> card_class (h r) = Split
        \<and> (\<forall>c. Layout c \<in> set L \<and> card_class (h c) = Split \<and> c \<noteq> r
                \<longrightarrow> split_str E (h c) \<noteq> split_str E (h r))"
  proof (rule join_lone)
    show "join_dual_card_layouts E h L = Inr (h', out)" using p by simp
    show "Layout r \<in> set L" using p by simp
    show "card_class (h r) = Split" using p by simp
    show "split_str E (h c) \<noteq> split_str E (h r)"
      if "Layout c \<in> set L" "card_class (h c) = Split" "c \<noteq> r" for c
      using p that by blast
  qed
  show ?thesis using a b c by blast
qed

theorem join_dual_card_layouts_idempotent_witness:
  "join_dual_card_layouts env0 listed_store [Layout 3, Layout 0, Layout 1]
     = Inr (merged_pair_store, [Layout 3, Layout 0])
   \<and> join_dual_card_layouts env0 merged_pair_store [Layout 3, Layout 0]
       = Inr (merged_pair_store, [Layout 3, Layout 0])
   \<and> join_dual_card_layouts env0 merged_pair_store [Layout 0] = Inr (merged_pair_store, [Layout 0])
   \<and> join_dual_card_layouts env0 other_print_store [Layout 0, Layout 1, Layout 3]
       = Inr (other_print_store, [Layout 3, Layout 0, Layout 1])
   \<and> Layout 0 \<in> set [Layout 3, Layout 0, Layout 1]"
proof -
  have h1: "join_dual_card_layouts env0 listed_store [Layout 3, Layout 0, Layout 1]
     = Inr (merged_pair_store, [Layout 3, Layout 0])"
    by (rule join_listed_pair)
  have r1: "join_dual_card_layouts env0 merged_pair_store [Layout 3, Layout 0]
       = Inr (merged_pair_store, [Layout 3, Layout 0])"
    using h1 join_dual_card_layouts_idempotent
      [of env0 listed_store "[Layout 3, Layout 0, Layout 1]" merged_pair_store
          "[Layout 3, Layout 0]"]
    by blast
  have r2: "join_dual_card_layouts env0 merged_pair_store [Layout 0]
       = Inr (merged_pair_store, [Layout 0])"
    using join_dual_card_layouts_idempotent [of env0 merged_pair_store _ _ _ 0] by blast
  have h3: "join_dual_card_layouts env0 other_print_store [Layout 0, Layout 1, Layout 3]
       = Inr (other_print_store, [Layout 3, Layout 0, Layout 1])"
    by (rule join_other_print)
  have lone: "\<forall>c. Layout c \<in> set [Layout 0, Layout 1, Layout 3]
                 \<and> card_class (other_print_store c) = Split \<and> c \<noteq> 0
                \<longrightarrow> split_str env0 (other_print_store c) \<noteq> split_str env0 (other_print_store 0)"
    using other_print_keys by auto
  have m: "Layout 0 \<in> set [Layout 0, Layout 1, Layout 3]" by simp
  have r3: "Layout 0 \<in> set [Layout 3, Layout 0, Layout 1] \<and> other_print_store 0 = other_print_store 0"
    using h3 m lone other_print_keys(1) join_dual_card_layouts_idempotent
      [of env0 other_print_store "[Layout 0, Layout 1, Layout 3]" other_print_store
          "[Layout 3, Layout 0, Layout 1]" 0]
    by blast
  show ?thesis using h1 r1 r2 h3 r3 by blast
qed

text \<open>
  C3 (as amended). The merge never reports a \<open>MergeAmbiguity\<close>, and it returns whenever
  every Split object of the batch is one it can work on. Three or more Split objects with
  one display string go through the same pairwise loop as two. Whenever the merge returns:
  no two different Split objects of the result have the same display string; every Split
  object of the batch has its display string carried by a Split object of the result; a
  Split object of the result is an object of the batch, the first one of the batch with
  its display string, and it comes out as \<open>merged_obj\<close> says, its \<open>art_file\<close> holding its
  own files and those of every other object of its group; every other object is left as it
  was; the entries that are not Split objects are the ones of the batch, in their order.
\<close>

theorem join_folds_groups_without_ambiguity:
  "join_dual_card_layouts E h L \<noteq> Inl MergeAmbiguity
   \<and> ((\<forall>r. Layout r \<in> set L \<and> card_class (h r) = Split \<longrightarrow> mergeable E h r)
        \<longrightarrow> (\<exists>h1 out1. join_dual_card_layouts E h L = Inr (h1, out1)))
   \<and> (join_dual_card_layouts E h L = Inr (h', out) \<longrightarrow>
        (\<forall>a b. Layout a \<in> set out \<and> Layout b \<in> set out \<and> card_class (h a) = Split
               \<and> card_class (h b) = Split \<and> a \<noteq> b
             \<longrightarrow> split_str E (h a) \<noteq> split_str E (h b))
        \<and> (\<forall>r. Layout r \<in> set L \<and> card_class (h r) = Split \<longrightarrow>
               (\<exists>a. Layout a \<in> set out \<and> card_class (h a) = Split
                    \<and> split_str E (h a) = split_str E (h r)))
        \<and> (\<forall>g. Layout g \<in> set out \<and> card_class (h g) = Split \<longrightarrow>
               Layout g \<in> set L
               \<and> h' g = merged_obj E h (split_refs h L) g
               \<and> (\<forall>c\<in>set (takeWhile (\<lambda>x. x \<noteq> g) (split_refs h L)).
                      split_str E (h c) \<noteq> split_str E (h g)))
        \<and> (\<forall>x. \<not> (Layout x \<in> set out \<and> card_class (h x) = Split) \<longrightarrow> h' x = h x)
        \<and> filter (\<lambda>n. \<not> is_split h n) out = filter (\<lambda>n. \<not> is_split h n) L)"
proof -
  have a: "join_dual_card_layouts E h L \<noteq> Inl MergeAmbiguity" by (rule join_error)
  have b: "\<exists>h1 out1. join_dual_card_layouts E h L = Inr (h1, out1)"
    if "\<forall>r. Layout r \<in> set L \<and> card_class (h r) = Split \<longrightarrow> mergeable E h r"
    using that by (rule join_returns)
  have c: "(\<forall>a b. Layout a \<in> set out \<and> Layout b \<in> set out \<and> card_class (h a) = Split
               \<and> card_class (h b) = Split \<and> a \<noteq> b
             \<longrightarrow> split_str E (h a) \<noteq> split_str E (h b))
        \<and> (\<forall>r. Layout r \<in> set L \<and> card_class (h r) = Split \<longrightarrow>
               (\<exists>a. Layout a \<in> set out \<and> card_class (h a) = Split
                    \<and> split_str E (h a) = split_str E (h r)))"
    if "join_dual_card_layouts E h L = Inr (h', out)"
    using that by (rule join_one_per_key)
  have d: "(\<forall>g. Layout g \<in> set out \<and> card_class (h g) = Split \<longrightarrow>
               Layout g \<in> set L
               \<and> h' g = merged_obj E h (split_refs h L) g
               \<and> (\<forall>c\<in>set (takeWhile (\<lambda>x. x \<noteq> g) (split_refs h L)).
                      split_str E (h c) \<noteq> split_str E (h g)))
        \<and> (\<forall>x. \<not> (Layout x \<in> set out \<and> card_class (h x) = Split) \<longrightarrow> h' x = h x)
        \<and> filter (\<lambda>n. \<not> is_split h n) out = filter (\<lambda>n. \<not> is_split h n) L"
    if "join_dual_card_layouts E h L = Inr (h', out)"
    using that by (rule join_kept)
  show ?thesis
    apply (intro conjI impI)
          apply (rule a)
         apply (erule b)
        apply (erule c[THEN conjunct1])
       apply (erule c[THEN conjunct2])
      apply (erule d[THEN conjunct1])
     apply (erule d[THEN conjunct2, THEN conjunct1])
    apply (erule d[THEN conjunct2, THEN conjunct2])
    done
qed

theorem join_folds_groups_without_ambiguity_witness:
  "join_dual_card_layouts env0 listed_store [Layout 0, Layout 1, Layout 2]
     = Inr (merged_triple_store, [Layout 0])
   \<and> split_refs listed_store [Layout 0, Layout 1, Layout 2] = [0, 1, 2]
   \<and> merged_triple_store 0 = merged_obj env0 listed_store [0, 1, 2] 0
   \<and> merged_obj env0 listed_store [0, 1, 2] 0
       = (listed_store 0)\<lparr>lo_art_file :=
            Some (AList [u ''art/Ice2.png'', u ''art/Ice.png'', u ''art/Fire.png''])\<rparr>
   \<and> merged_triple_store 1 = listed_store 1
   \<and> merged_triple_store 2 = listed_store 2
   \<and> mergeable env0 listed_store 0 \<and> mergeable env0 listed_store 1
   \<and> mergeable env0 listed_store 2"
proof -
  let ?L = "[Layout 0, Layout 1, Layout 2]"
  have h1: "join_dual_card_layouts env0 listed_store ?L = Inr (merged_triple_store, [Layout 0])"
    by (rule join_listed_triple)
  have s: "split_refs listed_store ?L = [0, 1, 2]" using listed_keys by simp
  have k0: "Layout 0 \<in> set [Layout 0] \<and> card_class (listed_store 0) = Split"
    using listed_keys by simp
  have n1: "\<not> (Layout 1 \<in> set [Layout 0] \<and> card_class (listed_store 1) = Split)" by simp
  have n2: "\<not> (Layout 2 \<in> set [Layout 0] \<and> card_class (listed_store 2) = Split)" by simp
  note t = join_folds_groups_without_ambiguity
      [of env0 listed_store ?L merged_triple_store "[Layout 0]"]
  have r0: "merged_triple_store 0 = merged_obj env0 listed_store [0, 1, 2] 0"
    using t h1 k0 s by simp
  have r1: "merged_triple_store 1 = listed_store 1" using t h1 n1 by blast
  have r2: "merged_triple_store 2 = listed_store 2" using t h1 n2 by blast
  show ?thesis using h1 s r0 r1 r2 merged_listed_0 listed_mergeable by simp
qed

text \<open>
  C3 as stated fails on a batch of three Split objects with one display string. Where the
  attribute \<open>art_file\<close> holds lists, the three are folded into the first object, which gets
  the three files, and nothing is reported. On fresh objects the result is the
  \<open>TypeError\<close> that two such objects give as well. Neither is a \<open>MergeAmbiguity\<close>.
\<close>

theorem join_of_three_reports_no_ambiguity:
  "split_str env0 (listed_store 1) = split_str env0 (listed_store 0)
   \<and> split_str env0 (listed_store 2) = split_str env0 (listed_store 0)
   \<and> join_dual_card_layouts env0 listed_store [Layout 0, Layout 1, Layout 2]
       = Inr (merged_triple_store, [Layout 0])
   \<and> lo_art_file (merged_triple_store 0)
       = Some (AList [u ''art/Ice2.png'', u ''art/Ice.png'', u ''art/Fire.png''])
   \<and> join_dual_card_layouts env0 fresh_store [Layout 0, Layout 1, Layout 2] = Inl TypeError
   \<and> join_dual_card_layouts env0 fresh_store [Layout 0, Layout 1] = Inl TypeError
   \<and> join_dual_card_layouts env0 listed_store [Layout 0, Layout 1, Layout 2]
       \<noteq> Inl MergeAmbiguity
   \<and> join_dual_card_layouts env0 fresh_store [Layout 0, Layout 1, Layout 2]
       \<noteq> Inl MergeAmbiguity"
proof -
  have f: "lo_art_file (merged_triple_store 0)
       = Some (AList [u ''art/Ice2.png'', u ''art/Ice.png'', u ''art/Fire.png''])"
    by (simp add: merged_triple_store_def set_art_file_def)
  have n1: "join_dual_card_layouts env0 listed_store [Layout 0, Layout 1, Layout 2]
       \<noteq> Inl MergeAmbiguity"
    unfolding join_listed_triple by simp
  have n2: "join_dual_card_layouts env0 fresh_store [Layout 0, Layout 1, Layout 2]
       \<noteq> Inl MergeAmbiguity"
    unfolding join_fresh_triple by simp
  show ?thesis
    using f n1 n2 listed_keys(1) listed_keys(2) join_listed_triple join_fresh_triple
      join_fresh_pair
    by blast
qed

end
